theory Spec2Isabelle
  imports Main "HOL-Library.List_Lexorder" "HOL-Library.Char_ord"
begin

section \<open>Errors\<close>

text \<open>
  The C functions of \<^verbatim>\<open>clixon_keyvalue.c\<close> return \<open>0\<close> or \<open>-1\<close> and report the reason of a
  \<open>-1\<close> through \<^verbatim>\<open>clicon_err(category, errno, format, ...)\<close>.  The model returns the
  error as a value: the category and the formatted message.  A \<open>-1\<close> that is returned
  without a call of \<^verbatim>\<open>clicon_err\<close> in this file (a library helper failed) is \<open>Lib_failed\<close>;
  so is every place where the code does what C leaves undefined, since no result can
  be stated for it.
  Memory exhaustion (\<^verbatim>\<open>cbuf_new\<close>, \<^verbatim>\<open>strdup\<close>, \<^verbatim>\<open>xml_new\<close> returning NULL) is outside the
  model: allocation is taken to succeed.
\<close>

datatype clicon_category = OE_DB | OE_XML | OE_UNIX | OE_YANG | OE_PLUGIN

datatype clicon_error = Clicon_err clicon_category string | Lib_failed

section \<open>The schema\<close>

text \<open>
  Modelled from the spec: the schema model and its lookup primitives belong to the
  library (\<^verbatim>\<open>clixon_yang.c\<close>), of which this file sees only the calls.  A statement has a
  keyword, an argument (its name; for a \<open>key\<close> statement the key-field names separated
  by spaces) and sub-statements.  The keywords are those the file switches on, the
  \<open>key\<close> and \<open>module\<close> statements, and \<open>Y_OTHER\<close> for every remaining one.
\<close>

datatype ys_keyword = Y_CONTAINER | Y_LEAF | Y_LEAF_LIST | Y_LIST | Y_KEY | Y_MODULE | Y_OTHER

datatype yang_stmt = Yang_stmt (ys_keyword: ys_keyword) (ys_argument: string) (ys_stmt: "yang_stmt list")

text \<open>The schema root \<^verbatim>\<open>yang_spec\<close>: its modules, in order.\<close>

type_synonym yang_spec = "yang_stmt list"

text \<open>
  Modelled from the spec: \<^verbatim>\<open>clicon_strsep(string, delim, &nvec)\<close> cuts a string at every
  occurrence of the delimiter, like \<^verbatim>\<open>strsep\<close>: \<open>n\<close> delimiters give \<open>n + 1\<close> pieces, empty
  pieces included.  (What it does on a NULL string is written at its call in \<open>get\<close>.)
\<close>

fun clicon_strsep :: "string \<Rightarrow> char \<Rightarrow> string list" where
  "clicon_strsep [] d = [[]]"
| "clicon_strsep (c # cs) d =
     (if c = d then [] # clicon_strsep cs d
      else (case clicon_strsep cs d of
              [] \<Rightarrow> [[c]]
            | w # ws \<Rightarrow> (c # w) # ws))"

text \<open>
  Modelled from the spec (``find a child data node''): \<^verbatim>\<open>yang_find_datanode\<close> returns the
  first sub-statement that is a data node (container, leaf, leaf-list or list) and has
  the given name.
\<close>

definition yang_datanode :: "yang_stmt \<Rightarrow> bool" where
  "yang_datanode y = (ys_keyword y = Y_CONTAINER \<or> ys_keyword y = Y_LEAF
                      \<or> ys_keyword y = Y_LEAF_LIST \<or> ys_keyword y = Y_LIST)"

definition yang_find_datanode :: "yang_stmt \<Rightarrow> string \<Rightarrow> yang_stmt option" where
  "yang_find_datanode yn name = find (\<lambda>y. yang_datanode y \<and> ys_argument y = name) (ys_stmt yn)"

text \<open>
  Modelled from the spec (``find a top-level node by name''): \<^verbatim>\<open>yang_find_topnode\<close> with
  \<^verbatim>\<open>YC_DATANODE\<close> looks for the data node in each module in turn.
\<close>

fun yang_find_topnode :: "yang_spec \<Rightarrow> string \<Rightarrow> yang_stmt option" where
  "yang_find_topnode [] name = None"
| "yang_find_topnode (m # ms) name =
     (case yang_find_datanode m name of
        Some y \<Rightarrow> Some y
      | None \<Rightarrow> yang_find_topnode ms name)"

text \<open>
  Modelled from the spec (``find a node's key-field declaration''): \<^verbatim>\<open>yang_find(y, Y_KEY, NULL)\<close>
  is the first \<open>key\<close> sub-statement, \<^verbatim>\<open>yang_arg2cvec(ykey, " ")\<close> the names in its
  argument, and \<^verbatim>\<open>ys_cvec\<close> of a list the cached vector of these names (empty without a
  \<open>key\<close> statement: \<^verbatim>\<open>cvec_each\<close> of no vector yields nothing).
\<close>

definition yang_find_key :: "yang_stmt \<Rightarrow> yang_stmt option" where
  "yang_find_key y = find (\<lambda>c. ys_keyword c = Y_KEY) (ys_stmt y)"

definition yang_arg2cvec :: "yang_stmt \<Rightarrow> string list" where
  "yang_arg2cvec ykey = clicon_strsep (ys_argument ykey) CHR '' ''"

definition ys_cvec :: "yang_stmt \<Rightarrow> string list" where
  "ys_cvec y = (case yang_find_key y of None \<Rightarrow> [] | Some ykey \<Rightarrow> yang_arg2cvec ykey)"

section \<open>The handle and the database files\<close>

text \<open>
  \<^verbatim>\<open>struct kv_handle\<close>: the directory of the database files and the schema, both NULL
  until the options \<^verbatim>\<open>dbdir\<close> and \<^verbatim>\<open>yangspec\<close> are set.  The magic number is only asserted.
\<close>

record kv_handle =
  kh_dbdir :: "string option"
  kh_yangspec :: "yang_spec option"

text \<open>
  \<^verbatim>\<open>kv_db2file\<close> (lines 151-185).  The directory is tested first, then the name; the
  file name is \<^verbatim>\<open>"%s/%s_db"\<close> of the directory and the name.
\<close>

definition kv_db2file :: "kv_handle \<Rightarrow> string \<Rightarrow> clicon_error + string" where
  "kv_db2file kh db =
     (case kh_dbdir kh of
        None \<Rightarrow> Inl (Clicon_err OE_XML ''dbdir not set'')
      | Some dir \<Rightarrow>
          if db \<noteq> ''running'' \<and> db \<noteq> ''candidate'' \<and> db \<noteq> ''startup'' \<and> db \<noteq> ''tmp''
          then Inl (Clicon_err OE_XML (''No such database: '' @ db))
          else Inr (dir @ ''/'' @ db @ ''_db''))"

section \<open>The lock registry\<close>

text \<open>
  The three file-level variables \<^verbatim>\<open>_running_locked\<close>, \<^verbatim>\<open>_candidate_locked\<close> and
  \<^verbatim>\<open>_startup_locked\<close> (lines 136-138) as a record that every lock function takes and
  returns.  They are C \<^verbatim>\<open>int\<close>s that are only stored and compared, never computed
  with, so \<open>int\<close> models them.  The initial state is all zero.
\<close>

record locks =
  running_locked :: int
  candidate_locked :: int
  startup_locked :: int

definition locks_init :: locks where
  "locks_init = \<lparr>running_locked = 0, candidate_locked = 0, startup_locked = 0\<rparr>"

text \<open>\<^verbatim>\<open>kv_lock\<close> (lines 861-882): the owner is stored without looking at the old one.\<close>

definition kv_lock :: "locks \<Rightarrow> string \<Rightarrow> int \<Rightarrow> clicon_error + locks" where
  "kv_lock st db pid =
     (if db = ''running'' then Inr (st\<lparr>running_locked := pid\<rparr>)
      else if db = ''candidate'' then Inr (st\<lparr>candidate_locked := pid\<rparr>)
      else if db = ''startup'' then Inr (st\<lparr>startup_locked := pid\<rparr>)
      else Inl (Clicon_err OE_DB (''No such database: '' @ db)))"

text \<open>\<^verbatim>\<open>kv_unlock\<close> (lines 892-911).\<close>

definition kv_unlock :: "locks \<Rightarrow> string \<Rightarrow> clicon_error + locks" where
  "kv_unlock st db =
     (if db = ''running'' then Inr (st\<lparr>running_locked := 0\<rparr>)
      else if db = ''candidate'' then Inr (st\<lparr>candidate_locked := 0\<rparr>)
      else if db = ''startup'' then Inr (st\<lparr>startup_locked := 0\<rparr>)
      else Inl (Clicon_err OE_DB (''No such database: '' @ db)))"

text \<open>\<^verbatim>\<open>kv_unlock_all\<close> (lines 919-932): three independent tests, always returns 0.\<close>

definition kv_unlock_all :: "locks \<Rightarrow> int \<Rightarrow> locks" where
  "kv_unlock_all st pid =
     (let st1 = (if running_locked st = pid then st\<lparr>running_locked := 0\<rparr> else st);
          st2 = (if candidate_locked st1 = pid then st1\<lparr>candidate_locked := 0\<rparr> else st1)
      in if startup_locked st2 = pid then st2\<lparr>startup_locked := 0\<rparr> else st2)"

text \<open>
  \<^verbatim>\<open>kv_islocked\<close> (lines 941-957) returns an \<^verbatim>\<open>int\<close>: the stored owner, or the initial
  \<open>-1\<close> of \<^verbatim>\<open>retval\<close> after \<^verbatim>\<open>clicon_err\<close> for any other name.  The model returns the
  integer together with the error that was reported, if any.
\<close>

definition kv_islocked :: "locks \<Rightarrow> string \<Rightarrow> int \<times> clicon_error option" where
  "kv_islocked st db =
     (if db = ''running'' then (running_locked st, None)
      else if db = ''candidate'' then (candidate_locked st, None)
      else if db = ''startup'' then (startup_locked st, None)
      else (- 1, Some (Clicon_err OE_DB (''No such database: '' @ db))))"

section \<open>The configuration tree\<close>

text \<open>
  Modelled from the spec: the in-memory tree \<^verbatim>\<open>cxobj\<close> and its primitives belong to the
  library (\<^verbatim>\<open>clixon_xml.c\<close>).  A node has a name, a type (element, attribute or body
  text), a value (attributes and bodies) and children.  This file creates the text of
  an element as a child named \<open>body\<close> of type \<^verbatim>\<open>CX_BODY\<close> (lines 248-251 and 426-429), and
  reads the \<open>operation\<close> attribute as a child by name (line 669).
\<close>

datatype cxtype = CX_ELMNT | CX_ATTR | CX_BODY

datatype cxobj = Cxobj (xml_name: string) (xml_type: cxtype) (xml_value: "string option")
  (xml_childvec: "cxobj list")

text \<open>
  Modelled from the spec (``find child''): \<^verbatim>\<open>xml_find\<close> is the first child with the name,
  of any type; \<^verbatim>\<open>xml_find_value\<close> is that child's value; \<^verbatim>\<open>xml_body\<close> is the value of the
  first child of type \<^verbatim>\<open>CX_BODY\<close>.
\<close>

definition xml_find :: "cxobj \<Rightarrow> string \<Rightarrow> cxobj option" where
  "xml_find x name = find (\<lambda>c. xml_name c = name) (xml_childvec x)"

definition xml_find_value :: "cxobj \<Rightarrow> string \<Rightarrow> string option" where
  "xml_find_value x name = (case xml_find x name of None \<Rightarrow> None | Some c \<Rightarrow> xml_value c)"

definition xml_body :: "cxobj \<Rightarrow> string option" where
  "xml_body x = (case find (\<lambda>c. xml_type c = CX_BODY) (xml_childvec x) of
                   None \<Rightarrow> None
                 | Some b \<Rightarrow> xml_value b)"

text \<open>
  The operation of an edit, \<^verbatim>\<open>enum operation_type\<close>, and \<^verbatim>\<open>xml_operation\<close>, which reads
  it from the text of an \<open>operation\<close> attribute.  Modelled from the spec: the six
  operations, under their NETCONF names; any other text is an error.
\<close>

datatype operation_type = OP_MERGE | OP_REPLACE | OP_CREATE | OP_DELETE | OP_REMOVE | OP_NONE

definition xml_operation :: "string \<Rightarrow> clicon_error + operation_type" where
  "xml_operation opstr =
     (if opstr = ''merge'' then Inr OP_MERGE
      else if opstr = ''replace'' then Inr OP_REPLACE
      else if opstr = ''create'' then Inr OP_CREATE
      else if opstr = ''delete'' then Inr OP_DELETE
      else if opstr = ''remove'' then Inr OP_REMOVE
      else if opstr = ''none'' then Inr OP_NONE
      else Inl (Clicon_err OE_XML (''Bad-attribute operation: '' @ opstr)))"

section \<open>Percent-encoding\<close>

text \<open>
  Modelled from the spec: \<^verbatim>\<open>uri_percent_encode\<close> and \<^verbatim>\<open>uri_percent_decode\<close> belong to the
  library.  Letters, digits and \<open>- . _ ~\<close> (the unreserved characters of RFC 3986, which
  the file's header names) stand for themselves; every other character, so each of
  \<open>/ = , %\<close>, becomes \<open>%\<close> and two hexadecimal digits.  Decoding fails on a \<open>%\<close> that is
  not followed by two hexadecimal digits.
\<close>

definition unreserved :: "char \<Rightarrow> bool" where
  "unreserved c =
     (let n = (of_char c :: nat)
      in (48 \<le> n \<and> n \<le> 57) \<or> (65 \<le> n \<and> n \<le> 90) \<or> (97 \<le> n \<and> n \<le> 122)
         \<or> c = CHR ''-'' \<or> c = CHR ''.'' \<or> c = CHR ''_'' \<or> c = CHR ''~'')"

definition hexdigit :: "nat \<Rightarrow> char" where
  "hexdigit n = (if n < 10 then char_of (48 + n) else char_of (55 + n))"

definition hexval :: "char \<Rightarrow> nat option" where
  "hexval c =
     (let n = (of_char c :: nat)
      in if 48 \<le> n \<and> n \<le> 57 then Some (n - 48)
         else if 65 \<le> n \<and> n \<le> 70 then Some (n - 55)
         else if 97 \<le> n \<and> n \<le> 102 then Some (n - 87)
         else None)"

fun uri_percent_encode :: "string \<Rightarrow> string" where
  "uri_percent_encode [] = []"
| "uri_percent_encode (c # cs) =
     (if unreserved c then c # uri_percent_encode cs
      else CHR ''%'' # hexdigit (of_char c div 16) # hexdigit (of_char c mod 16)
             # uri_percent_encode cs)"

fun uri_percent_decode :: "string \<Rightarrow> string option" where
  "uri_percent_decode [] = Some []"
| "uri_percent_decode (c # cs) =
     (if c = CHR ''%'' then
        (case cs of
           h # l # rest \<Rightarrow>
             (case (hexval h, hexval l, uri_percent_decode rest) of
                (Some a, Some b, Some r) \<Rightarrow> Some (char_of (16 * a + b) # r)
              | _ \<Rightarrow> None)
         | _ \<Rightarrow> None)
      else map_option ((#) c) (uri_percent_decode cs))"

section \<open>The key-value store\<close>

text \<open>
  Modelled from the spec: the storage engine (\<^verbatim>\<open>clixon_qdb.c\<close>) is ``assumed to already
  exist'': a sorted store of keys with optional values, with set, test and delete of
  one key and the enumeration of the keys that match a pattern.  A database file is
  the list of its pairs in ascending key order.  Input and output errors of the engine
  are outside the model, so the store operations themselves never fail.
\<close>

type_synonym db = "(string \<times> string option) list"

fun db_set :: "db \<Rightarrow> string \<Rightarrow> string option \<Rightarrow> db" where
  "db_set [] k v = [(k, v)]"
| "db_set (p # ps) k v =
     (if fst p = k then (k, v) # ps
      else if k < fst p then (k, v) # p # ps
      else p # db_set ps k v)"

definition db_exists :: "db \<Rightarrow> string \<Rightarrow> bool" where
  "db_exists d k = (k \<in> set (map fst d))"

definition db_del :: "db \<Rightarrow> string \<Rightarrow> db" where
  "db_del d k = filter (\<lambda>p. fst p \<noteq> k) d"

text \<open>
  Modelled from the spec (``enumerate keys by pattern'', ``regex-based subtree
  deletion''): \<^verbatim>\<open>db_regexp\<close> returns the pairs whose key the regular expression matches.
  The file uses two patterns: the empty one, to read the complete database (line 587),
  and \<^verbatim>\<open>"^%s.*$"\<close> around a key (line 727); its test program calls \<^verbatim>\<open>"^.*$"\<close> ``match
  all''.  The matcher below is the classical one for this fragment: \<open>^\<close> at the start
  and \<open>$\<close> at the end anchor, \<open>.\<close> is any character, \<open>c*\<close> is any number of \<open>c\<close>, any
  other character is itself, and an unanchored pattern may match anywhere.  It is
  exact for patterns whose only special characters are these four; names of schema
  nodes and percent-encoded values contain no other.
\<close>

definition rx_char :: "char \<Rightarrow> char \<Rightarrow> bool" where
  "rx_char c x = (c = CHR ''.'' \<or> c = x)"

fun matchhere :: "string \<Rightarrow> string \<Rightarrow> bool" where
  "matchhere [] s = True"
| "matchhere [c] s =
     (if c = CHR ''$'' then s = []
      else (case s of [] \<Rightarrow> False | x # t \<Rightarrow> rx_char c x))"
| "matchhere (c # d # re) s =
     (if d = CHR ''*''
      then list_ex (\<lambda>n. matchhere re (drop n s)) [0..<Suc (length (takeWhile (rx_char c) s))]
      else (case s of [] \<Rightarrow> False | x # t \<Rightarrow> rx_char c x \<and> matchhere (d # re) t))"

definition regex_match :: "string \<Rightarrow> string \<Rightarrow> bool" where
  "regex_match re s =
     (case re of
        [] \<Rightarrow> True
      | c # re' \<Rightarrow>
          if c = CHR ''^'' then matchhere re' s
          else list_ex (\<lambda>n. matchhere re (drop n s)) [0..<Suc (length s)])"

definition db_regexp :: "db \<Rightarrow> string \<Rightarrow> (string \<times> string option) list" where
  "db_regexp d rx = filter (\<lambda>p. regex_match rx (fst p)) d"

section \<open>Writing a tree\<close>

text \<open>
  \<^verbatim>\<open>append_listkeys\<close> (lines 190-227): for each key-field name of the list, in the
  schema's order, the child of that name must exist; its percent-encoded body is
  appended after \<open>=\<close> (the first) or \<open>,\<close> (the others).  The counter \<open>i\<close> of the source
  is the flag \<open>first\<close>.  A key child without a body would pass NULL to \<^verbatim>\<open>"%s"\<close>, which C
  leaves undefined: the model fails there.
\<close>

fun append_listkeys :: "string \<Rightarrow> cxobj \<Rightarrow> string list \<Rightarrow> bool \<Rightarrow> clicon_error + string" where
  "append_listkeys ckey xt [] first = Inr ckey"
| "append_listkeys ckey xt (keyname # cvk) first =
     (case xml_find xt keyname of
        None \<Rightarrow> Inl (Clicon_err OE_XML (''XML list node '' @ [CHR 0x22] @ xml_name xt @ [CHR 0x22]
                      @ '' does not have key '' @ [CHR 0x22] @ keyname @ [CHR 0x22] @ '' child''))
      | Some xkey \<Rightarrow>
          (case xml_body xkey of
             None \<Rightarrow> Inl Lib_failed
           | Some body \<Rightarrow>
               append_listkeys (ckey @ (if first then ''='' else '','') @ uri_percent_encode body)
                 xt cvk False))"

text \<open>
  The key of a node (lines 677-691 of \<open>put\<close>): the key of the parent, a slash and the
  name; for a list the key values, for a leaf-list the encoded body.  A leaf-list
  without body would again pass NULL to \<^verbatim>\<open>"%s"\<close>.
\<close>

definition xmlkey :: "cxobj \<Rightarrow> yang_stmt \<Rightarrow> string \<Rightarrow> clicon_error + string" where
  "xmlkey xt ys xk0 =
     (let cbxk = xk0 @ ''/'' @ xml_name xt
      in case ys_keyword ys of
           Y_LIST \<Rightarrow> append_listkeys cbxk xt (ys_cvec ys) True
         | Y_LEAF_LIST \<Rightarrow>
             (case xml_body xt of
                None \<Rightarrow> Inl Lib_failed
              | Some body \<Rightarrow> Inr (cbxk @ ''='' @ uri_percent_encode body))
         | _ \<Rightarrow> Inr cbxk)"

text \<open>
  The \<^verbatim>\<open>switch (op)\<close> of \<open>put\<close> (lines 694-751) on one node with key \<open>xk\<close> and body
  \<open>body\<close>.  \<^verbatim>\<open>OP_CREATE\<close> falls through to the write of \<^verbatim>\<open>OP_MERGE\<close> and \<^verbatim>\<open>OP_REPLACE\<close>,
  \<^verbatim>\<open>OP_DELETE\<close> to the removal of \<^verbatim>\<open>OP_REMOVE\<close>.  The removal of a list or a container
  deletes every pair that \<^verbatim>\<open>"^%s.*$"\<close> of the key matches and leaves \<open>put\<close> at once (the
  flag returned is \<open>True\<close>); the removal of any other node deletes its one key.
\<close>

definition db_del_pairs :: "db \<Rightarrow> (string \<times> string option) list \<Rightarrow> db" where
  "db_del_pairs d pairs = fold (\<lambda>p d'. db_del d' (fst p)) pairs d"

definition put_remove :: "db \<Rightarrow> ys_keyword \<Rightarrow> string \<Rightarrow> db \<times> bool" where
  "put_remove d kw xk =
     (if kw = Y_LIST \<or> kw = Y_CONTAINER
      then (db_del_pairs d (db_regexp d (''^'' @ xk @ ''.*$'')), True)
      else (db_del d xk, False))"

definition put_write ::
  "db \<Rightarrow> ys_keyword \<Rightarrow> operation_type \<Rightarrow> string \<Rightarrow> string option \<Rightarrow> clicon_error + db \<times> bool" where
  "put_write d kw op xk body =
     (case op of
        OP_CREATE \<Rightarrow>
          if db_exists d xk
          then Inl (Clicon_err OE_DB (''OP_CREATE: '' @ xk @ '' already exists in database''))
          else Inr (db_set d xk body, False)
      | OP_MERGE \<Rightarrow> Inr (db_set d xk body, False)
      | OP_REPLACE \<Rightarrow> Inr (db_set d xk body, False)
      | OP_DELETE \<Rightarrow>
          if \<not> db_exists d xk
          then Inl (Clicon_err OE_DB (''OP_DELETE: '' @ xk @ '' does not exists in database''))
          else Inr (put_remove d kw xk)
      | OP_REMOVE \<Rightarrow> Inr (put_remove d kw xk)
      | OP_NONE \<Rightarrow> Inr (d, False))"

text \<open>
  \<open>put\<close> (lines 647-769) on the database \<open>d\<close>, the content of \<^verbatim>\<open>dbfile\<close>.  An \<open>operation\<close>
  attribute replaces the operation for the node (\<open>put_op\<close>, lines 669-671) and, since it
  is what the recursive calls receive, for its subtree.  \<open>put_children\<close> is the loop of lines 753-760 over the
  element children.  An error returns the database as the writes before it left it:
  nothing is rolled back.
\<close>

definition put_op :: "cxobj \<Rightarrow> operation_type \<Rightarrow> clicon_error + operation_type" where
  "put_op xt op0 =
     (case xml_find_value xt ''operation'' of
        None \<Rightarrow> Inr op0
      | Some opstr \<Rightarrow> xml_operation opstr)"

fun put :: "db \<Rightarrow> cxobj \<Rightarrow> yang_stmt \<Rightarrow> operation_type \<Rightarrow> string \<Rightarrow> clicon_error \<times> db + db"
  and put_children ::
    "db \<Rightarrow> cxobj list \<Rightarrow> yang_stmt \<Rightarrow> operation_type \<Rightarrow> string \<Rightarrow> clicon_error \<times> db + db" where
  "put d (Cxobj name ty val cs) ys op0 xk0 =
     (case put_op (Cxobj name ty val cs) op0 of
        Inl e \<Rightarrow> Inl (e, d)
      | Inr op \<Rightarrow>
          (case xmlkey (Cxobj name ty val cs) ys xk0 of
             Inl e \<Rightarrow> Inl (e, d)
           | Inr xk \<Rightarrow>
               (case put_write d (ys_keyword ys) op xk (xml_body (Cxobj name ty val cs)) of
                  Inl e \<Rightarrow> Inl (e, d)
                | Inr (d', leave) \<Rightarrow> if leave then Inr d' else put_children d' cs ys op xk)))"
| "put_children d [] ys op xk = Inr d"
| "put_children d (x # xs) ys op xk =
     (if xml_type x \<noteq> CX_ELMNT then put_children d xs ys op xk
      else (case yang_find_datanode ys (xml_name x) of
              None \<Rightarrow> Inl (Clicon_err OE_UNIX (''No yang node found: '' @ xml_name x), d)
            | Some y \<Rightarrow>
                (case put d x y op xk of
                   Inl e \<Rightarrow> Inl e
                 | Inr d' \<Rightarrow> put_children d' xs ys op xk)))"

text \<open>
  \<open>kv_put\<close> (lines 775-819).  The database files are a function from file names to
  contents.  \<^verbatim>\<open>OP_REPLACE\<close> deletes the file and creates it empty before anything is
  written; then every element child of the tree is put with the empty key.
\<close>

type_synonym dbfiles = "string \<Rightarrow> db"

fun kv_put_children ::
  "yang_spec \<Rightarrow> db \<Rightarrow> cxobj list \<Rightarrow> operation_type \<Rightarrow> clicon_error \<times> db + db" where
  "kv_put_children yspec d [] op = Inr d"
| "kv_put_children yspec d (x # xs) op =
     (if xml_type x \<noteq> CX_ELMNT then kv_put_children yspec d xs op
      else (case yang_find_topnode yspec (xml_name x) of
              None \<Rightarrow> Inl (Clicon_err OE_UNIX (''No yang node found: '' @ xml_name x), d)
            | Some ys \<Rightarrow>
                (case put d x ys op [] of
                   Inl e \<Rightarrow> Inl e
                 | Inr d' \<Rightarrow> kv_put_children yspec d' xs op)))"

definition kv_put ::
  "kv_handle \<Rightarrow> dbfiles \<Rightarrow> string \<Rightarrow> operation_type \<Rightarrow> cxobj
     \<Rightarrow> clicon_error \<times> dbfiles + dbfiles" where
  "kv_put kh fs db op xt =
     (case kh_yangspec kh of
        None \<Rightarrow> Inl (Clicon_err OE_YANG ''No yang spec'', fs)
      | Some yspec \<Rightarrow>
          (case kv_db2file kh db of
             Inl e \<Rightarrow> Inl (e, fs)
           | Inr dbfilename \<Rightarrow>
               (let fs0 = (if op = OP_REPLACE then fs(dbfilename := []) else fs)
                in case kv_put_children yspec (fs0 dbfilename) (xml_childvec xt) op of
                     Inl (e, d) \<Rightarrow> Inl (e, fs0(dbfilename := d))
                   | Inr d \<Rightarrow> Inr (fs0(dbfilename := d)))))"

text \<open>
  What a failed \<open>put\<close> reports, for statements that compare two runs, and the trees in
  which no node carries an \<open>operation\<close> attribute, so that one operation holds for
  the whole tree.
\<close>

definition put_error :: "clicon_error \<times> db + db \<Rightarrow> clicon_error option" where
  "put_error r = (case r of Inl (e, d) \<Rightarrow> Some e | Inr d \<Rightarrow> None)"

fun no_operation :: "cxobj \<Rightarrow> bool" where
  "no_operation (Cxobj name ty val cs) =
     (xml_find_value (Cxobj name ty val cs) ''operation'' = None \<and> (\<forall>c \<in> set cs. no_operation c))"

text \<open>
  The entries of a tree, in the spec's words: a store entry is a pair of a canonical
  key and an optional body value, and every element of the tree that the schema knows
  has one.  \<open>node_entries\<close> lists them for a node, then for its element children from
  left to right; \<open>tree_entries\<close> for the children of the root.  \<open>db_set_all\<close> stores a
  list of entries one after the other.
\<close>

fun node_entries :: "cxobj \<Rightarrow> yang_stmt \<Rightarrow> string \<Rightarrow> (string \<times> string option) list"
  and children_entries :: "cxobj list \<Rightarrow> yang_stmt \<Rightarrow> string \<Rightarrow> (string \<times> string option) list" where
  "node_entries (Cxobj name ty val cs) ys xk0 =
     (case xmlkey (Cxobj name ty val cs) ys xk0 of
        Inl e \<Rightarrow> []
      | Inr xk \<Rightarrow> (xk, xml_body (Cxobj name ty val cs)) # children_entries cs ys xk)"
| "children_entries [] ys xk = []"
| "children_entries (x # xs) ys xk =
     (if xml_type x \<noteq> CX_ELMNT then []
      else (case yang_find_datanode ys (xml_name x) of
              None \<Rightarrow> []
            | Some y \<Rightarrow> node_entries x y xk)) @ children_entries xs ys xk"

fun top_entries :: "yang_spec \<Rightarrow> cxobj list \<Rightarrow> (string \<times> string option) list" where
  "top_entries yspec [] = []"
| "top_entries yspec (x # xs) =
     (if xml_type x \<noteq> CX_ELMNT then []
      else (case yang_find_topnode yspec (xml_name x) of
              None \<Rightarrow> []
            | Some y \<Rightarrow> node_entries x y [])) @ top_entries yspec xs"

definition tree_entries :: "yang_spec \<Rightarrow> cxobj \<Rightarrow> (string \<times> string option) list" where
  "tree_entries yspec xt = top_entries yspec (xml_childvec xt)"

definition db_set_all :: "db \<Rightarrow> (string \<times> string option) list \<Rightarrow> db" where
  "db_set_all d es = fold (\<lambda>e d'. db_set d' (fst e) (snd e)) es d"

section \<open>Reading a tree\<close>

text \<open>
  \<open>get\<close> (lines 263-444) walks the segments of one stored key down the tree \<open>xt\<close>, with
  \<open>x\<close> the node reached and \<open>y\<close> the schema node of the last segment.  The C code moves
  a pointer into the tree and changes the tree in place; the model returns, for one
  segment, the children of \<open>x\<close> as those before the node \<open>xc\<close> it goes to, \<open>xc\<close>
  itself, and those after it, and puts the result of the walk below \<open>xc\<close> back in
  that place.

  \<open>find_split\<close> is the search for the first child with a property that the library's
  \<^verbatim>\<open>xml_find\<close> and \<^verbatim>\<open>xpath_first\<close> do, returning the place of the child as well.
\<close>

fun find_split :: "('a \<Rightarrow> bool) \<Rightarrow> 'a list \<Rightarrow> ('a list \<times> 'a \<times> 'a list) option" where
  "find_split P [] = None"
| "find_split P (c # cs) =
     (if P c then Some ([], c, cs)
      else (case find_split P cs of
              None \<Rightarrow> None
            | Some (pre, x, suf) \<Rightarrow> Some (c # pre, x, suf)))"

text \<open>
  The name of a segment and its value text (lines 309-313): \<^verbatim>\<open>index(name, '=')\<close> cuts at
  the first \<open>=\<close>; without one \<^verbatim>\<open>restval\<close> is NULL.
\<close>

definition split_eq :: "string \<Rightarrow> string \<times> string option" where
  "split_eq seg =
     (takeWhile (\<lambda>c. c \<noteq> CHR ''='') seg,
      if CHR ''='' \<in> set seg then Some (tl (dropWhile (\<lambda>c. c \<noteq> CHR ''='') seg)) else None)"

text \<open>
  The schema node of a segment (lines 314-324): a top-level node for the first segment
  (no schema node yet), a data node below the last one otherwise.
\<close>

fun get_yang :: "yang_spec \<Rightarrow> yang_stmt option \<Rightarrow> string \<Rightarrow> yang_stmt option" where
  "get_yang ys None name = yang_find_topnode ys name"
| "get_yang ys (Some y) name = yang_find_datanode y name"

text \<open>
  New nodes: \<^verbatim>\<open>xml_new_spec(name, x, y)\<close> is a new last child of \<open>x\<close>, an element without
  children; \<^verbatim>\<open>create_keyvalues\<close> (lines 235-255) gives a new list instance a child for a
  key field, whose text is the key value.
\<close>

definition xml_new :: "string \<Rightarrow> cxobj" where
  "xml_new name = Cxobj name CX_ELMNT None []"

definition xml_new_body :: "string \<Rightarrow> cxobj" where
  "xml_new_body val = Cxobj ''body'' CX_BODY (Some val) []"

definition create_keyvalues :: "string \<times> string \<Rightarrow> cxobj" where
  "create_keyvalues kv = Cxobj (fst kv) CX_ELMNT None [xml_new_body (snd kv)]"

text \<open>
  Modelled from the spec (``a path-query selecting the existing instance by exact
  key-field match''): \<^verbatim>\<open>xpath_first\<close> on \<^verbatim>\<open>name[k1='v1'][k2='v2']\<close> is the first child
  element with the name that has, for every key field, a child element of the
  field's name with the value as its text.
\<close>

definition xpath_keys_match :: "string \<Rightarrow> (string \<times> string) list \<Rightarrow> cxobj \<Rightarrow> bool" where
  "xpath_keys_match name kvs c =
     (xml_type c = CX_ELMNT \<and> xml_name c = name
      \<and> list_all (\<lambda>kv. list_ex (\<lambda>k. xml_type k = CX_ELMNT \<and> xml_name k = fst kv
                                    \<and> xml_body k = Some (snd kv)) (xml_childvec c)) kvs)"

fun decode_all :: "string list \<Rightarrow> string list option" where
  "decode_all [] = Some []"
| "decode_all (a # as) =
     (case uri_percent_decode a of
        None \<Rightarrow> None
      | Some d \<Rightarrow> map_option ((#) d) (decode_all as))"

text \<open>
  One turn of the loop of lines 308-424 up to \<^verbatim>\<open>x = xc\<close>: the error, or \<open>None\<close> for the
  \<^verbatim>\<open>retval = 0; goto done\<close> of lines 367-370, or the schema node and the place of \<open>xc\<close>
  among the children of \<open>x\<close>.

  The leaf-list branch (lines 326-341) calls \<^verbatim>\<open>uri_percent_decode(&argdec, restval)\<close>:
  the address of \<^verbatim>\<open>argdec\<close> where the calls of lines 376 and 394 pass the text, and the
  text where they pass the address.  So \<^verbatim>\<open>argdec\<close>, which has no initial value, is never
  assigned, and is then read by \<^verbatim>\<open>xml_find\<close> (line 334) or freed (line 339) as it is.
  C leaves this undefined and the read does not get past it: the model fails there,
  whatever the value text and the tree are.  For a list, \<^verbatim>\<open>clicon_strsep\<close> of no value
  text returns NULL, which \<open>get\<close> takes for a failure.
\<close>

definition get_step ::
  "yang_spec \<Rightarrow> yang_stmt option \<Rightarrow> string \<Rightarrow> cxobj
     \<Rightarrow> clicon_error + (yang_stmt \<times> cxobj list \<times> cxobj \<times> cxobj list) option" where
  "get_step ys y0 seg x =
     (let name = fst (split_eq seg); restval = snd (split_eq seg)
      in case get_yang ys y0 name of
           None \<Rightarrow> Inl (Clicon_err OE_UNIX (''No yang node found: '' @ name))
         | Some y \<Rightarrow>
             (case ys_keyword y of
                Y_LEAF_LIST \<Rightarrow> Inl Lib_failed
              | Y_LIST \<Rightarrow>
                  (case yang_find_key y of
                     None \<Rightarrow> Inl (Clicon_err OE_XML (''get: List statement '' @ [CHR 0x22]
                                   @ ys_argument y @ [CHR 0x22] @ '' has no key''))
                   | Some ykey \<Rightarrow>
                       (case restval of
                          None \<Rightarrow> Inl Lib_failed
                        | Some r \<Rightarrow>
                            if length (yang_arg2cvec ykey) \<noteq> length (clicon_strsep r CHR '','')
                            then Inr None
                            else (case decode_all (clicon_strsep r CHR '','') of
                                    None \<Rightarrow> Inl Lib_failed
                                  | Some args \<Rightarrow>
                                      (case find_split
                                              (xpath_keys_match name (zip (yang_arg2cvec ykey) args))
                                              (xml_childvec x) of
                                         Some (pre, xc, suf) \<Rightarrow> Inr (Some (y, pre, xc, suf))
                                       | None \<Rightarrow>
                                           Inr (Some (y, xml_childvec x,
                                             Cxobj name CX_ELMNT None
                                               (map create_keyvalues (zip (yang_arg2cvec ykey) args)),
                                             []))))))
              | _ \<Rightarrow>
                  (case find_split (\<lambda>c. xml_name c = name) (xml_childvec x) of
                     None \<Rightarrow> Inr (Some (y, xml_childvec x, xml_new name, []))
                   | Some (pre, xc, suf) \<Rightarrow> Inr (Some (y, pre, xc, suf)))))"

text \<open>
  The loop over the segments \<^verbatim>\<open>vec[1..]\<close> and the text added after it (lines 425-430):
  a value is attached to the last node when the node has no text yet.
\<close>

fun get_vec ::
  "yang_spec \<Rightarrow> yang_stmt option \<Rightarrow> string list \<Rightarrow> string option \<Rightarrow> cxobj \<Rightarrow> clicon_error + cxobj" where
  "get_vec ys y0 [] val x =
     (case val of
        None \<Rightarrow> Inr x
      | Some v \<Rightarrow>
          if xml_body x = None
          then Inr (Cxobj (xml_name x) (xml_type x) (xml_value x) (xml_childvec x @ [xml_new_body v]))
          else Inr x)"
| "get_vec ys y0 (seg # vec) val x =
     (case get_step ys y0 seg x of
        Inl e \<Rightarrow> Inl e
      | Inr None \<Rightarrow> Inr x
      | Inr (Some (y, pre, xc, suf)) \<Rightarrow>
          (case get_vec ys (Some y) vec val xc of
             Inl e \<Rightarrow> Inl e
           | Inr xc' \<Rightarrow> Inr (Cxobj (xml_name x) (xml_type x) (xml_value x) (pre @ xc' # suf))))"

text \<open>
  \<open>get\<close>: the key must start with a slash (it is never NULL here: it is a key of the
  store); element 0 of its pieces is the empty text before that slash.  The argument
  \<^verbatim>\<open>dbname\<close> of the source is not read.
\<close>

definition get :: "yang_spec \<Rightarrow> string \<Rightarrow> string option \<Rightarrow> cxobj \<Rightarrow> clicon_error + cxobj" where
  "get ys xk val xt =
     (if xk = [] \<or> hd xk \<noteq> CHR ''/'' then Inl (Clicon_err OE_DB (''Invalid key: '' @ xk))
      else if length (clicon_strsep xk CHR ''/'') < 2
      then Inl (Clicon_err OE_XML (''Malformed key: '' @ xk))
      else get_vec ys None (tl (clicon_strsep xk CHR ''/'')) val xt)"

text \<open>
  \<open>kv_get\<close> (lines 557-635).  The loop of lines 592-599 decodes every pair of the
  database into one tree and stops at the first error.  What follows (the path query
  and the pruning, the default values, the ordering and the sanity pass, lines
  600-622) is the library's: \<open>kv_get\<close> takes it as the parameter \<open>post\<close>, a function
  of the query path and the tree.
\<close>

fun kv_get_pairs :: "yang_spec \<Rightarrow> (string \<times> string option) list \<Rightarrow> cxobj \<Rightarrow> clicon_error + cxobj" where
  "kv_get_pairs yspec [] xt = Inr xt"
| "kv_get_pairs yspec (p # ps) xt =
     (case get yspec (fst p) (snd p) xt of
        Inl e \<Rightarrow> Inl e
      | Inr xt' \<Rightarrow> kv_get_pairs yspec ps xt')"

definition kv_get ::
  "(string option \<Rightarrow> cxobj \<Rightarrow> clicon_error + cxobj) \<Rightarrow> kv_handle \<Rightarrow> dbfiles \<Rightarrow> string
     \<Rightarrow> string option \<Rightarrow> clicon_error + cxobj" where
  "kv_get post kh fs db xpath =
     (case kv_db2file kh db of
        Inl e \<Rightarrow> Inl e
      | Inr dbfile \<Rightarrow>
          (case kh_yangspec kh of
             None \<Rightarrow> Inl (Clicon_err OE_YANG ''No yang spec'')
           | Some yspec \<Rightarrow>
               (case kv_get_pairs yspec (db_regexp (fs dbfile) []) (xml_new ''config'') of
                  Inl e \<Rightarrow> Inl e
                | Inr xt \<Rightarrow> post xpath xt)))"

text \<open>
  For statements about keys: the key with the given segments; the schema node that
  the walk over the names of some segments ends at (\<open>None\<close> when a name is unknown);
  and the test of lines 354-370 that makes \<open>get\<close> leave a key silently: the segment
  names a list with a \<open>key\<close> statement and carries a number of comma-separated values
  that differs from the number of key fields.
\<close>

definition key_of :: "string list \<Rightarrow> string" where
  "key_of segs = concat (map (\<lambda>s. CHR ''/'' # s) segs)"

fun get_walk :: "yang_spec \<Rightarrow> yang_stmt option \<Rightarrow> string list \<Rightarrow> yang_stmt option option" where
  "get_walk ys y0 [] = Some y0"
| "get_walk ys y0 (seg # vec) =
     (case get_yang ys y0 (fst (split_eq seg)) of
        None \<Rightarrow> None
      | Some y \<Rightarrow> get_walk ys (Some y) vec)"

definition list_mismatch :: "yang_spec \<Rightarrow> yang_stmt option \<Rightarrow> string \<Rightarrow> bool" where
  "list_mismatch ys y0 seg =
     (case get_yang ys y0 (fst (split_eq seg)) of
        None \<Rightarrow> False
      | Some y \<Rightarrow>
          ys_keyword y = Y_LIST \<and>
          (case yang_find_key y of
             None \<Rightarrow> False
           | Some ykey \<Rightarrow>
               (case snd (split_eq seg) of
                  None \<Rightarrow> False
                | Some r \<Rightarrow> length (yang_arg2cvec ykey) \<noteq> length (clicon_strsep r CHR '',''))))"

text \<open>
  \<open>get_skips\<close>: some segment of the list is such a segment, at the schema node that
  the walk over the segments before it ends at.
\<close>

fun get_skips :: "yang_spec \<Rightarrow> yang_stmt option \<Rightarrow> string list \<Rightarrow> bool" where
  "get_skips ys y0 [] = False"
| "get_skips ys y0 (seg # vec) =
     (list_mismatch ys y0 seg \<or>
      (case get_yang ys y0 (fst (split_eq seg)) of
         None \<Rightarrow> False
       | Some y \<Rightarrow> get_skips ys (Some y) vec))"

section \<open>Example data\<close>

text \<open>
  A small schema and the constructors of trees that the closed statements below are
  evaluated on: a container \<open>c\<close> with a leaf and a list, two leaves of which one name
  is a prefix of the other, a leaf-list, a list \<open>server\<close> with the key \<open>name\<close> and a
  list \<open>address\<close> with the key \<open>ip\<close>.
\<close>

definition xml_elem :: "string \<Rightarrow> cxobj list \<Rightarrow> cxobj" where
  "xml_elem name cs = Cxobj name CX_ELMNT None cs"

definition xml_leaf :: "string \<Rightarrow> string \<Rightarrow> cxobj" where
  "xml_leaf name v = Cxobj name CX_ELMNT None [Cxobj ''body'' CX_BODY (Some v) []]"

definition xml_attr :: "string \<Rightarrow> string \<Rightarrow> cxobj" where
  "xml_attr name v = Cxobj name CX_ATTR (Some v) []"

definition ex_server :: yang_stmt where
  "ex_server = Yang_stmt Y_LIST ''server''
     [Yang_stmt Y_KEY ''name'' [], Yang_stmt Y_LEAF ''name'' [], Yang_stmt Y_LEAF ''port'' []]"

definition ex_address :: yang_stmt where
  "ex_address = Yang_stmt Y_LIST ''address''
     [Yang_stmt Y_KEY ''ip'' [], Yang_stmt Y_LEAF ''ip'' []]"

definition ex_c :: yang_stmt where
  "ex_c = Yang_stmt Y_CONTAINER ''c'' [Yang_stmt Y_LEAF ''x'' [], ex_server]"

definition ex_yspec :: yang_spec where
  "ex_yspec = [Yang_stmt Y_MODULE ''example''
     [ex_c, Yang_stmt Y_LEAF ''a'' [], Yang_stmt Y_LEAF ''ab'' [], Yang_stmt Y_LEAF_LIST ''ll'' [],
      ex_server, ex_address]]"

definition ex_handle :: kv_handle where
  "ex_handle = \<lparr>kh_dbdir = Some ''/var/db'', kh_yangspec = Some ex_yspec\<rparr>"

definition no_files :: dbfiles where
  "no_files = (\<lambda>f. [])"

section \<open>Database names\<close>

text \<open>
  C7, as amended.  The directory is tested before the name, so an unset directory is
  reported whatever the name is; with a directory, a name outside the four is reported
  as unknown; and otherwise the result is exactly directory, slash, name, \<open>_db\<close>.
\<close>

theorem kv_db2file_cases:
  "(kh_dbdir kh = None \<longrightarrow> kv_db2file kh db = Inl (Clicon_err OE_XML ''dbdir not set''))
   \<and> (kh_dbdir kh = Some dir \<and> db \<notin> {''running'', ''candidate'', ''startup'', ''tmp''}
        \<longrightarrow> kv_db2file kh db = Inl (Clicon_err OE_XML (''No such database: '' @ db)))
   \<and> (kh_dbdir kh = Some dir \<and> db \<in> {''running'', ''candidate'', ''startup'', ''tmp''}
        \<longrightarrow> kv_db2file kh db = Inr (dir @ ''/'' @ db @ ''_db''))"
  by (auto simp: kv_db2file_def)

theorem kv_db2file_cases_witness:
  "kv_db2file \<lparr>kh_dbdir = None, kh_yangspec = None\<rparr> ''running'' = Inl (Clicon_err OE_XML ''dbdir not set'')
   \<and> kv_db2file \<lparr>kh_dbdir = Some ''/var/db'', kh_yangspec = None\<rparr> ''result''
        = Inl (Clicon_err OE_XML ''No such database: result'')
   \<and> kv_db2file \<lparr>kh_dbdir = Some ''/var/db'', kh_yangspec = None\<rparr> ''candidate'' = Inr ''/var/db/candidate_db''"
  using kv_db2file_cases [of "\<lparr>kh_dbdir = None, kh_yangspec = None\<rparr>" "''running''" "''x''"]
    kv_db2file_cases [of "\<lparr>kh_dbdir = Some ''/var/db'', kh_yangspec = None\<rparr>" "''result''" "''/var/db''"]
    kv_db2file_cases [of "\<lparr>kh_dbdir = Some ''/var/db'', kh_yangspec = None\<rparr>" "''candidate''" "''/var/db''"]
  by simp

text \<open>
  C7 as stated fails where both tests fail: with no directory and the name \<open>result\<close>
  the error is the directory's, not the unknown database's.
\<close>

theorem kv_db2file_unknown_name_counterexample:
  "''result'' \<notin> {''running'', ''candidate'', ''startup'', ''tmp''}
   \<and> kv_db2file \<lparr>kh_dbdir = None, kh_yangspec = None\<rparr> ''result'' \<noteq> Inl (Clicon_err OE_XML ''No such database: result'')
   \<and> kv_db2file \<lparr>kh_dbdir = None, kh_yangspec = None\<rparr> ''result'' = Inl (Clicon_err OE_XML ''dbdir not set'')"
  by (simp add: kv_db2file_def)

section \<open>Lock bookkeeping\<close>

text \<open>
  C8.  For a lockable database and any owner \<open>p\<close>: \<open>kv_lock\<close> succeeds; afterwards
  \<open>kv_islocked\<close> returns \<open>p\<close>, whatever the owner was before; after \<open>kv_unlock_all p\<close> it
  returns 0; and \<open>kv_lock\<close> on \<open>tmp\<close> fails with the unknown-database error.
\<close>

theorem kv_lock_bookkeeping:
  assumes "db \<in> {''running'', ''candidate'', ''startup''}"
  shows "(\<exists>st'. kv_lock st db p = Inr st'
            \<and> kv_islocked st' db = (p, None)
            \<and> kv_islocked (kv_unlock_all st' p) db = (0, None))
         \<and> kv_lock st ''tmp'' q = Inl (Clicon_err OE_DB ''No such database: tmp'')"
  using assms by (auto simp: kv_lock_def kv_islocked_def kv_unlock_all_def Let_def)

theorem kv_lock_bookkeeping_witness:
  "kv_lock locks_init ''running'' 5 = Inr (locks_init\<lparr>running_locked := 5\<rparr>)
   \<and> kv_islocked (locks_init\<lparr>running_locked := 5\<rparr>) ''running'' = (5, None)
   \<and> kv_islocked (kv_unlock_all (locks_init\<lparr>running_locked := 5\<rparr>) 5) ''running'' = (0, None)
   \<and> kv_lock locks_init ''tmp'' 5 = Inl (Clicon_err OE_DB ''No such database: tmp'')"
proof -
  have h: "''running'' \<in> {''running'', ''candidate'', ''startup''}" by simp
  from kv_lock_bookkeeping [OF h, of locks_init 5 5]
  show ?thesis by (auto simp: kv_lock_def)
qed

text \<open>
  C10.  \<open>tmp\<close> is a database name that \<open>kv_db2file\<close> resolves, yet \<open>kv_islocked\<close> returns
  \<open>-1\<close> with the unknown-database error for it (not 0), and \<open>kv_unlock\<close> fails with the
  same error, in every lock state.
\<close>

theorem kv_islocked_unlock_tmp:
  "kv_islocked st ''tmp'' = (- 1, Some (Clicon_err OE_DB ''No such database: tmp''))
   \<and> kv_unlock st ''tmp'' = Inl (Clicon_err OE_DB ''No such database: tmp'')
   \<and> kv_db2file \<lparr>kh_dbdir = Some dir, kh_yangspec = ysp\<rparr> ''tmp'' = Inr (dir @ ''/tmp_db'')"
  by (simp add: kv_islocked_def kv_unlock_def kv_db2file_def)

theorem kv_islocked_unlock_tmp_witness:
  "fst (kv_islocked locks_init ''tmp'') = - 1 \<and> fst (kv_islocked locks_init ''tmp'') \<noteq> 0
   \<and> kv_unlock locks_init ''tmp'' = Inl (Clicon_err OE_DB ''No such database: tmp'')
   \<and> kv_db2file \<lparr>kh_dbdir = Some ''/var/db'', kh_yangspec = None\<rparr> ''tmp'' = Inr ''/var/db/tmp_db''"
  using kv_islocked_unlock_tmp [of locks_init "''/var/db''" None] by simp

section \<open>Facts about the store and the patterns\<close>

lemma db_set_keys: "set (map fst (db_set d k v)) = insert k (set (map fst d))"
  by (induction d) auto

lemma map_of_db_set: "map_of (db_set d k v) = (map_of d)(k \<mapsto> v)"
  by (induction d) (auto simp: fun_eq_iff)

lemma db_del_pairs_filter: "db_del_pairs d ps = filter (\<lambda>p. fst p \<notin> fst ` set ps) d"
  unfolding db_del_pairs_def
proof (induction ps arbitrary: d)
  case Nil
  then show ?case by simp
next
  case (Cons a ps)
  have "fold (\<lambda>p d'. db_del d' (fst p)) ps (db_del d (fst a))
        = filter (\<lambda>p. fst p \<notin> fst ` set ps) (db_del d (fst a))"
    by (rule Cons.IH)
  also have "\<dots> = filter (\<lambda>p. fst p \<notin> fst ` set (a # ps)) d"
    by (auto simp: db_del_def intro: filter_cong)
  finally show ?case by simp
qed

lemma db_del_regexp: "db_del_pairs d (db_regexp d rx) = filter (\<lambda>p. \<not> regex_match rx (fst p)) d"
  unfolding db_del_pairs_filter db_regexp_def
  by (rule filter_cong) (auto simp: image_iff)

lemma matchhere_dotstar: "matchhere ''.*$'' s"
proof -
  have tw: "takeWhile (rx_char CHR ''.'') s = s"
    by (simp add: rx_char_def)
  have "matchhere ''$'' (drop (length s) s)" by simp
  moreover have "length s \<in> set [0..<Suc (length (takeWhile (rx_char CHR ''.'') s))]"
    unfolding tw by simp
  ultimately have "list_ex (\<lambda>n. matchhere ''$'' (drop n s))
      [0..<Suc (length (takeWhile (rx_char CHR ''.'') s))]"
    unfolding list_ex_iff by blast
  then show ?thesis by simp
qed

lemma matchhere_prefix:
  "CHR ''*'' \<notin> set p \<Longrightarrow> matchhere (p @ ''.*$'') (p @ t)"
proof (induction p)
  case Nil
  then show ?case using matchhere_dotstar by simp
next
  case (Cons c p)
  then show ?case
    by (cases p) (auto simp: rx_char_def)
qed

lemma regex_match_prefix:
  "CHR ''*'' \<notin> set xk \<Longrightarrow> regex_match (''^'' @ xk @ ''.*$'') (xk @ t)"
  by (simp add: regex_match_def matchhere_prefix)

lemma db_exists_filter: "db_exists (filter P d) k = (\<exists>p \<in> set d. P p \<and> fst p = k)"
  by (auto simp: db_exists_def)

lemma db_exists_db_del: "db_exists (db_del d xk) k = (db_exists d k \<and> k \<noteq> xk)"
  by (auto simp: db_exists_def db_del_def)

section \<open>Facts about put\<close>

lemma put_unfold:
  "put d xt ys op0 xk0 =
     (case put_op xt op0 of
        Inl e \<Rightarrow> Inl (e, d)
      | Inr op \<Rightarrow>
          (case xmlkey xt ys xk0 of
             Inl e \<Rightarrow> Inl (e, d)
           | Inr xk \<Rightarrow>
               (case put_write d (ys_keyword ys) op xk (xml_body xt) of
                  Inl e \<Rightarrow> Inl (e, d)
                | Inr (d', leave) \<Rightarrow> if leave then Inr d' else put_children d' (xml_childvec xt) ys op xk)))"
  by (cases xt) (auto split: sum.splits prod.splits)

lemma no_operation_put_op: "no_operation xt \<Longrightarrow> put_op xt op = Inr op"
  by (cases xt) (simp add: put_op_def)

lemma put_children_error_indep:
  assumes "\<And>c d d' y. c \<in> set cs \<Longrightarrow> put_error (put d c y op xk) = put_error (put d' c y op xk)"
  shows "put_error (put_children d cs ys op xk) = put_error (put_children d' cs ys op xk)"
  using assms
proof (induction cs arbitrary: d d')
  case Nil
  then show ?case by (simp add: put_error_def)
next
  case (Cons x xs)
  have ih: "\<And>d d'. put_error (put_children d xs ys op xk) = put_error (put_children d' xs ys op xk)"
    by (rule Cons.IH) (simp add: Cons.prems)
  show ?case
  proof (cases "xml_type x \<noteq> CX_ELMNT")
    case True
    then show ?thesis using ih by simp
  next
    case elem: False
    show ?thesis
    proof (cases "yang_find_datanode ys (xml_name x)")
      case None
      then show ?thesis using elem by (simp add: put_error_def)
    next
      case (Some y)
      have e: "put_error (put d x y op xk) = put_error (put d' x y op xk)"
        by (rule Cons.prems) simp
      show ?thesis
      proof (cases "put d x y op xk")
        case (Inl a)
        with e obtain b where "put d' x y op xk = Inl b" "fst a = fst b"
          by (cases "put d' x y op xk") (auto simp: put_error_def split: prod.splits)
        with Inl elem Some show ?thesis by (auto simp: put_error_def split: prod.splits)
      next
        case (Inr d1)
        with e obtain d2 where "put d' x y op xk = Inr d2"
          by (cases "put d' x y op xk") (auto simp: put_error_def split: prod.splits)
        with Inr elem Some ih [of d1 d2] show ?thesis by simp
      qed
    qed
  qed
qed

lemma put_write_leave:
  "op \<in> {OP_MERGE, OP_REPLACE, OP_REMOVE, OP_NONE} \<Longrightarrow>
   \<exists>d1. put_write d kw op xk body = Inr (d1, op = OP_REMOVE \<and> (kw = Y_LIST \<or> kw = Y_CONTAINER))"
  by (auto simp: put_write_def put_remove_def)

lemma put_error_indep:
  "op \<in> {OP_MERGE, OP_REPLACE, OP_REMOVE, OP_NONE} \<Longrightarrow> no_operation xt \<Longrightarrow>
   put_error (put d xt ys op xk0) = put_error (put d' xt ys op xk0)"
proof (induction xt arbitrary: d d' ys xk0)
  case (Cxobj name ty val cs)
  let ?xt = "Cxobj name ty val cs"
  have op: "put_op ?xt op = Inr op"
    using Cxobj.prems(2) by (rule no_operation_put_op)
  show ?case
  proof (cases "xmlkey ?xt ys xk0")
    case (Inl e)
    then show ?thesis using op by (simp add: put_error_def)
  next
    case (Inr xk)
    obtain d1 where w1: "put_write d (ys_keyword ys) op xk (xml_body ?xt)
        = Inr (d1, op = OP_REMOVE \<and> (ys_keyword ys = Y_LIST \<or> ys_keyword ys = Y_CONTAINER))"
      using put_write_leave [OF Cxobj.prems(1)] by blast
    obtain d2 where w2: "put_write d' (ys_keyword ys) op xk (xml_body ?xt)
        = Inr (d2, op = OP_REMOVE \<and> (ys_keyword ys = Y_LIST \<or> ys_keyword ys = Y_CONTAINER))"
      using put_write_leave [OF Cxobj.prems(1)] by blast
    have ch: "put_error (put_children d1 cs ys op xk) = put_error (put_children d2 cs ys op xk)"
    proof (rule put_children_error_indep)
      fix c da db y
      assume "c \<in> set cs"
      then show "put_error (put da c y op xk) = put_error (put db c y op xk)"
        using Cxobj.IH Cxobj.prems by simp
    qed
    show ?thesis
      using op Inr w1 w2 ch by (auto simp: put_error_def)
  qed
qed

lemma db_set_all_append: "db_set_all d (a @ b) = db_set_all (db_set_all d a) b"
  by (simp add: db_set_all_def)

lemma db_set_all_Cons: "db_set_all d ((k, v) # es) = db_set_all (db_set d k v) es"
  by (simp add: db_set_all_def)

lemma db_set_all_Nil: "db_set_all d [] = d"
  by (simp add: db_set_all_def)

lemma db_set_keys': "fst ` set (db_set d k v) = insert k (fst ` set d)"
  using db_set_keys [of d k v] by simp

lemma db_set_all_keys: "fst ` set (db_set_all d es) = fst ` set d \<union> fst ` set es"
proof (induction es arbitrary: d)
  case Nil
  then show ?case by (simp add: db_set_all_Nil)
next
  case (Cons e es)
  obtain k v where e: "e = (k, v)" by (cases e)
  show ?case
    unfolding e db_set_all_Cons Cons.IH db_set_keys' by auto
qed

lemma put_children_replace:
  assumes "\<And>c d d' y. c \<in> set cs \<Longrightarrow> put d c y OP_REPLACE xk = Inr d'
             \<Longrightarrow> d' = db_set_all d (node_entries c y xk)"
    and "put_children d cs ys OP_REPLACE xk = Inr d'"
  shows "d' = db_set_all d (children_entries cs ys xk)"
  using assms
proof (induction cs arbitrary: d)
  case Nil
  then show ?case by (simp add: db_set_all_Nil)
next
  case (Cons x xs)
  show ?case
  proof (cases "xml_type x \<noteq> CX_ELMNT")
    case True
    with Cons.prems(2) have "put_children d xs ys OP_REPLACE xk = Inr d'" by simp
    then have "d' = db_set_all d (children_entries xs ys xk)"
      using Cons.IH Cons.prems(1) by simp
    then show ?thesis using True by simp
  next
    case elem: False
    from Cons.prems(2) elem obtain y d1 where
      y: "yang_find_datanode ys (xml_name x) = Some y"
      and p1: "put d x y OP_REPLACE xk = Inr d1"
      and p2: "put_children d1 xs ys OP_REPLACE xk = Inr d'"
      by (auto split: option.splits sum.splits)
    have "d1 = db_set_all d (node_entries x y xk)"
      using Cons.prems(1) p1 by simp
    moreover have "d' = db_set_all d1 (children_entries xs ys xk)"
      using Cons.IH Cons.prems(1) p2 by simp
    ultimately show ?thesis using elem y by (simp add: db_set_all_append)
  qed
qed

lemma put_replace:
  "no_operation xt \<Longrightarrow> put d xt ys OP_REPLACE xk0 = Inr d'
   \<Longrightarrow> d' = db_set_all d (node_entries xt ys xk0)"
proof (induction xt arbitrary: d d' ys xk0)
  case (Cxobj name ty val cs)
  let ?xt = "Cxobj name ty val cs"
  have op: "put_op ?xt OP_REPLACE = Inr OP_REPLACE"
    using Cxobj.prems(1) by (rule no_operation_put_op)
  from Cxobj.prems(2) op obtain xk where
    xk: "xmlkey ?xt ys xk0 = Inr xk"
    and ch: "put_children (db_set d xk (xml_body ?xt)) cs ys OP_REPLACE xk = Inr d'"
    by (auto simp: put_write_def split: sum.splits)
  have "d' = db_set_all (db_set d xk (xml_body ?xt)) (children_entries cs ys xk)"
  proof (rule put_children_replace [OF _ ch])
    fix c da db y
    assume "c \<in> set cs" "put da c y OP_REPLACE xk = Inr db"
    then show "db = db_set_all da (node_entries c y xk)"
      using Cxobj.IH Cxobj.prems(1) by simp
  qed
  then show ?case using xk by (simp add: db_set_all_Cons)
qed

lemma kv_put_children_replace:
  "\<forall>c \<in> set cs. no_operation c \<Longrightarrow> kv_put_children yspec d cs OP_REPLACE = Inr d'
   \<Longrightarrow> d' = db_set_all d (top_entries yspec cs)"
proof (induction cs arbitrary: d)
  case Nil
  then show ?case by (simp add: db_set_all_Nil)
next
  case (Cons x xs)
  show ?case
  proof (cases "xml_type x \<noteq> CX_ELMNT")
    case True
    then show ?thesis using Cons by simp
  next
    case elem: False
    from Cons.prems(2) elem obtain y d1 where
      y: "yang_find_topnode yspec (xml_name x) = Some y"
      and p1: "put d x y OP_REPLACE [] = Inr d1"
      and p2: "kv_put_children yspec d1 xs OP_REPLACE = Inr d'"
      by (auto split: option.splits sum.splits)
    have "d1 = db_set_all d (node_entries x y [])"
      using put_replace p1 Cons.prems(1) by simp
    moreover have "d' = db_set_all d1 (top_entries yspec xs)"
      using Cons.IH Cons.prems(1) p2 by simp
    ultimately show ?thesis using elem y by (simp add: db_set_all_append)
  qed
qed

section \<open>Removal\<close>

text \<open>
  C2, as amended.  Let \<open>put\<close> process a node under \<^verbatim>\<open>OP_REMOVE\<close> (the operation after an
  \<open>operation\<close> attribute of the node has been read) and let \<open>xk\<close> be its key.  For a
  list or a container, \<open>put\<close> succeeds with the store from which every pair is gone
  whose key the pattern \<^verbatim>\<open>^xk.*$\<close> matches, and nothing of the children enters the
  result: they are not visited.  Unless the key contains a star, these pairs include
  every key that has \<open>xk\<close> as a prefix.  For a node of any other kind (leaf,
  leaf-list), \<open>put\<close> deletes the one key \<open>xk\<close>, every other key staying, and goes on
  to the children of the node under \<^verbatim>\<open>OP_REMOVE\<close>.
\<close>

theorem put_remove_cases:
  assumes "put_op xt op0 = Inr OP_REMOVE" and "xmlkey xt ys xk0 = Inr xk"
  shows "(ys_keyword ys = Y_LIST \<or> ys_keyword ys = Y_CONTAINER \<longrightarrow>
            put d xt ys op0 xk0 = Inr (filter (\<lambda>p. \<not> regex_match (''^'' @ xk @ ''.*$'') (fst p)) d)
            \<and> (CHR ''*'' \<notin> set xk \<longrightarrow>
                 (\<forall>t. \<not> db_exists (filter (\<lambda>p. \<not> regex_match (''^'' @ xk @ ''.*$'') (fst p)) d) (xk @ t))))
       \<and> (ys_keyword ys \<noteq> Y_LIST \<and> ys_keyword ys \<noteq> Y_CONTAINER \<longrightarrow>
            put d xt ys op0 xk0 = put_children (db_del d xk) (xml_childvec xt) ys OP_REMOVE xk
            \<and> (\<forall>k. db_exists (db_del d xk) k = (db_exists d k \<and> k \<noteq> xk)))"
proof -
  have a: "put d xt ys op0 xk0 = Inr (filter (\<lambda>p. \<not> regex_match (''^'' @ xk @ ''.*$'') (fst p)) d)"
    if "ys_keyword ys = Y_LIST \<or> ys_keyword ys = Y_CONTAINER"
    using that assms by (auto simp: put_unfold put_write_def put_remove_def db_del_regexp)
  have b: "\<not> db_exists (filter (\<lambda>p. \<not> regex_match (''^'' @ xk @ ''.*$'') (fst p)) d) (xk @ t)"
    if "CHR ''*'' \<notin> set xk" for t
    using regex_match_prefix [OF that] by (auto simp: db_exists_filter)
  have c: "put d xt ys op0 xk0 = put_children (db_del d xk) (xml_childvec xt) ys OP_REMOVE xk"
    if "ys_keyword ys \<noteq> Y_LIST" "ys_keyword ys \<noteq> Y_CONTAINER"
    using that assms by (simp add: put_unfold put_write_def put_remove_def)
  show ?thesis using a b c db_exists_db_del by blast
qed

theorem put_remove_cases_witness:
  "put [(''/c'', None), (''/c/x'', Some ''1''), (''/d'', Some ''2'')]
       (xml_elem ''c'' [xml_elem ''unknown'' []]) ex_c OP_REMOVE []
     = Inr [(''/d'', Some ''2'')]
   \<and> put [(''/a'', Some ''3''), (''/ab'', Some ''4'')]
         (xml_leaf ''a'' ''3'') (Yang_stmt Y_LEAF ''a'' []) OP_REMOVE []
     = Inr [(''/ab'', Some ''4'')]"
proof -
  let ?d = "[(''/c'', None), (''/c/x'', Some ''1''), (''/d'', Some ''2'')]"
  let ?xt = "xml_elem ''c'' [xml_elem ''unknown'' []]"
  have op: "put_op ?xt OP_REMOVE = Inr OP_REMOVE"
    by (simp add: put_op_def xml_find_value_def xml_find_def xml_elem_def)
  have key: "xmlkey ?xt ex_c [] = Inr ''/c''"
    by (simp add: xmlkey_def ex_c_def xml_elem_def)
  have kw: "ys_keyword ex_c = Y_LIST \<or> ys_keyword ex_c = Y_CONTAINER"
    by (simp add: ex_c_def)
  have "put ?d ?xt ex_c OP_REMOVE []
        = Inr (filter (\<lambda>p. \<not> regex_match (''^'' @ ''/c'' @ ''.*$'') (fst p)) ?d)"
    using put_remove_cases [OF op key, of ?d] kw by blast
  also have "filter (\<lambda>p. \<not> regex_match (''^'' @ ''/c'' @ ''.*$'') (fst p)) ?d = [(''/d'', Some ''2'')]"
    by (simp add: regex_match_def rx_char_def)
  finally have a: "put ?d ?xt ex_c OP_REMOVE [] = Inr [(''/d'', Some ''2'')]" .
  let ?e = "[(''/a'', Some ''3''), (''/ab'', Some ''4'')]"
  let ?l = "xml_leaf ''a'' ''3''"
  let ?y = "Yang_stmt Y_LEAF ''a'' []"
  have op2: "put_op ?l OP_REMOVE = Inr OP_REMOVE"
    by (simp add: put_op_def xml_find_value_def xml_find_def xml_leaf_def)
  have key2: "xmlkey ?l ?y [] = Inr ''/a''"
    by (simp add: xmlkey_def xml_leaf_def)
  have "put ?e ?l ?y OP_REMOVE [] = put_children (db_del ?e ''/a'') (xml_childvec ?l) ?y OP_REMOVE ''/a''"
    using put_remove_cases [OF op2 key2, of ?e] by simp
  also have "\<dots> = Inr [(''/ab'', Some ''4'')]"
    by (simp add: db_del_def xml_leaf_def)
  finally show ?thesis using a by simp
qed

text \<open>
  C2 as stated fails for a leaf: removing the leaf \<open>a\<close> leaves the key \<open>/ab\<close> stored,
  which has the leaf's key \<open>/a\<close> as a prefix; and the children of a leaf are visited,
  so that a child unknown to the schema makes the call fail after the deletion.
\<close>

theorem put_remove_leaf_counterexample:
  "put [(''/a'', Some ''3''), (''/ab'', Some ''4'')]
       (xml_leaf ''a'' ''3'') (Yang_stmt Y_LEAF ''a'' []) OP_REMOVE []
     = Inr [(''/ab'', Some ''4'')]
   \<and> ''/ab'' = ''/a'' @ ''b''
   \<and> put [(''/a'', Some ''3''), (''/ab'', Some ''4'')]
         (xml_elem ''a'' [xml_elem ''unknown'' []]) (Yang_stmt Y_LEAF ''a'' []) OP_REMOVE []
     = Inl (Clicon_err OE_UNIX ''No yang node found: unknown'', [(''/ab'', Some ''4'')])"
  by (simp add: put_op_def xml_find_value_def xml_find_def xmlkey_def put_write_def
      put_remove_def db_del_def xml_body_def yang_find_datanode_def xml_leaf_def xml_elem_def)

text \<open>
  C3 at a failing input.  The list \<open>address\<close> has the instances \<open>1.1.1.1\<close> and
  \<open>101.1.1.5\<close>.  Removing the first builds the pattern \<^verbatim>\<open>^/address=1.1.1.1.*$\<close>, in which
  every dot of the key matches any character, so the pairs of the second instance
  are deleted too, although the key \<open>/address=1.1.1.1\<close> is not a prefix of theirs.
\<close>

theorem put_remove_regexp_overreach:
  "put [(''/address=1.1.1.1'', None), (''/address=1.1.1.1/ip'', Some ''1.1.1.1''),
        (''/address=101.1.1.5'', None), (''/address=101.1.1.5/ip'', Some ''101.1.1.5'')]
       (xml_elem ''address'' [xml_leaf ''ip'' ''1.1.1.1'']) ex_address OP_REMOVE []
     = Inr []
   \<and> xmlkey (xml_elem ''address'' [xml_leaf ''ip'' ''1.1.1.1'']) ex_address [] = Inr ''/address=1.1.1.1''
   \<and> take (length ''/address=1.1.1.1'') ''/address=101.1.1.5'' \<noteq> ''/address=1.1.1.1''"
  by code_simp

section \<open>Existence conflicts\<close>

text \<open>
  C4.  Let \<open>xk\<close> be the key of the node that \<open>put\<close> processes.  Under \<^verbatim>\<open>OP_CREATE\<close> with
  \<open>xk\<close> stored, \<open>put\<close> fails with the error ``already exists'' and the store unchanged;
  under \<^verbatim>\<open>OP_DELETE\<close> with \<open>xk\<close> not stored, it fails with ``does not exists''.  Under
  \<^verbatim>\<open>OP_MERGE\<close> and \<^verbatim>\<open>OP_REMOVE\<close> the write of a node never fails, whatever the store
  holds; and for a tree without \<open>operation\<close> attributes, whether and with which error
  the whole \<open>put\<close> fails is the same for any two stores.
\<close>

theorem put_existence:
  "(put_op xt op0 = Inr OP_CREATE \<and> xmlkey xt ys xk0 = Inr xk \<and> db_exists d xk \<longrightarrow>
      put d xt ys op0 xk0
        = Inl (Clicon_err OE_DB (''OP_CREATE: '' @ xk @ '' already exists in database''), d))
   \<and> (put_op xt op0 = Inr OP_DELETE \<and> xmlkey xt ys xk0 = Inr xk \<and> \<not> db_exists d xk \<longrightarrow>
      put d xt ys op0 xk0
        = Inl (Clicon_err OE_DB (''OP_DELETE: '' @ xk @ '' does not exists in database''), d))
   \<and> (op \<in> {OP_MERGE, OP_REMOVE} \<longrightarrow> (\<exists>r. put_write d kw op xk body = Inr r))
   \<and> (op \<in> {OP_MERGE, OP_REMOVE} \<and> no_operation xt \<longrightarrow>
        put_error (put d xt ys op xk0) = put_error (put d' xt ys op xk0))"
proof -
  have "put_error (put d xt ys op xk0) = put_error (put d' xt ys op xk0)"
    if "op \<in> {OP_MERGE, OP_REMOVE}" "no_operation xt"
    using that put_error_indep [of op xt d ys xk0 d'] by blast
  moreover have "\<exists>r. put_write d kw op xk body = Inr r" if "op \<in> {OP_MERGE, OP_REMOVE}"
    using that by (auto simp: put_write_def)
  ultimately show ?thesis
    by (auto simp: put_unfold put_write_def)
qed

theorem put_existence_witness:
  "put [(''/a'', Some ''3'')] (xml_leaf ''a'' ''5'') (Yang_stmt Y_LEAF ''a'' []) OP_CREATE []
     = Inl (Clicon_err OE_DB ''OP_CREATE: /a already exists in database'', [(''/a'', Some ''3'')])
   \<and> put [] (xml_leaf ''a'' ''5'') (Yang_stmt Y_LEAF ''a'' []) OP_DELETE []
     = Inl (Clicon_err OE_DB ''OP_DELETE: /a does not exists in database'', [])
   \<and> (\<exists>r. put_write [] Y_LEAF OP_REMOVE ''/a'' None = Inr r)
   \<and> put_error (put [] (xml_leaf ''a'' ''5'') (Yang_stmt Y_LEAF ''a'' []) OP_MERGE [])
     = put_error (put [(''/a'', Some ''3'')] (xml_leaf ''a'' ''5'') (Yang_stmt Y_LEAF ''a'' []) OP_MERGE [])"
proof -
  let ?l = "xml_leaf ''a'' ''5''"
  let ?y = "Yang_stmt Y_LEAF ''a'' []"
  have op: "put_op ?l op = Inr op" for op
    by (simp add: put_op_def xml_find_value_def xml_find_def xml_leaf_def)
  have key: "xmlkey ?l ?y [] = Inr ''/a''"
    by (simp add: xmlkey_def xml_leaf_def)
  have ex: "db_exists [(''/a'', Some ''3'')] ''/a''" "\<not> db_exists [] ''/a''"
    by (simp_all add: db_exists_def)
  have no: "no_operation ?l"
    by (simp add: xml_leaf_def xml_find_value_def xml_find_def)
  have rm: "OP_REMOVE \<in> {OP_MERGE, OP_REMOVE}" and mg: "OP_MERGE \<in> {OP_MERGE, OP_REMOVE}"
    by simp_all
  have c1: "put [(''/a'', Some ''3'')] ?l ?y OP_CREATE []
      = Inl (Clicon_err OE_DB (''OP_CREATE: '' @ ''/a'' @ '' already exists in database''), [(''/a'', Some ''3'')])"
    using put_existence [of ?l OP_CREATE ?y "[]" "''/a''" "[(''/a'', Some ''3'')]"] op key ex(1)
    by blast
  have c2: "put [] ?l ?y OP_DELETE []
      = Inl (Clicon_err OE_DB (''OP_DELETE: '' @ ''/a'' @ '' does not exists in database''), [])"
    using put_existence [of ?l OP_DELETE ?y "[]" "''/a''" "[]"] op key ex(2)
    by blast
  have c3: "\<exists>r. put_write [] Y_LEAF OP_REMOVE ''/a'' None = Inr r"
    using put_existence [of ?l OP_DELETE ?y "[]" "''/a''" "[]" OP_REMOVE Y_LEAF None] rm
    by blast
  have c4: "put_error (put [] ?l ?y OP_MERGE []) = put_error (put [(''/a'', Some ''3'')] ?l ?y OP_MERGE [])"
    using put_existence [of ?l OP_MERGE ?y "[]" "''/a''" "[]" OP_MERGE Y_LEAF None "[(''/a'', Some ''3'')]"]
      mg no
    by blast
  from c1 c2 c3 c4 show ?thesis by simp
qed

section \<open>Replacing the whole database\<close>

text \<open>
  C5, as amended.  For a handle with a schema and a database name that resolves to
  \<open>file\<close>: what \<open>kv_put\<close> under \<^verbatim>\<open>OP_REPLACE\<close> returns does not depend on what the file
  held before; and when no node of the tree carries an \<open>operation\<close> attribute and
  the call succeeds, the file holds exactly the entries of the tree (its key set is
  the key set of the entries, each key with the body of its last node), all other
  files being unchanged.
\<close>

theorem kv_put_replace:
  assumes "kh_yangspec kh = Some yspec" and "kv_db2file kh db = Inr file"
  shows "kv_put kh (fs(file := d0)) db OP_REPLACE xt = kv_put kh fs db OP_REPLACE xt
         \<and> ((\<forall>c \<in> set (xml_childvec xt). no_operation c) \<and> kv_put kh fs db OP_REPLACE xt = Inr fs'
              \<longrightarrow> fs' = fs(file := db_set_all [] (tree_entries yspec xt))
                  \<and> set (map fst (fs' file)) = set (map fst (tree_entries yspec xt)))"
proof -
  have "kv_put kh (fs(file := d0)) db OP_REPLACE xt = kv_put kh fs db OP_REPLACE xt"
    using assms by (simp add: kv_put_def Let_def)
  moreover have "fs' = fs(file := db_set_all [] (tree_entries yspec xt))"
    if no: "\<forall>c \<in> set (xml_childvec xt). no_operation c"
      and ok: "kv_put kh fs db OP_REPLACE xt = Inr fs'"
  proof -
    from ok assms obtain d where
      d: "kv_put_children yspec [] (xml_childvec xt) OP_REPLACE = Inr d"
      and fs': "fs' = fs(file := d)"
      by (auto simp: kv_put_def Let_def split: sum.splits prod.splits)
    from kv_put_children_replace [OF no d] fs' show ?thesis
      by (simp add: tree_entries_def)
  qed
  moreover have "set (map fst ((fs(file := db_set_all [] es)) file)) = set (map fst es)" for es
    using db_set_all_keys [of "[]" es] by simp
  ultimately show ?thesis
    by metis
qed

theorem kv_put_replace_witness:
  "kv_put ex_handle (no_files(''/var/db/candidate_db'' := [(''/old'', Some ''1'')])) ''candidate'' OP_REPLACE
       (xml_elem ''config'' [xml_elem ''server'' [xml_leaf ''name'' ''a'', xml_leaf ''port'' ''22'']])
     = Inr (no_files(''/var/db/candidate_db'' :=
         [(''/server=a'', None), (''/server=a/name'', Some ''a''), (''/server=a/port'', Some ''22'')]))"
proof -
  let ?t = "xml_elem ''config'' [xml_elem ''server'' [xml_leaf ''name'' ''a'', xml_leaf ''port'' ''22'']]"
  let ?f = "''/var/db/candidate_db''"
  have y: "kh_yangspec ex_handle = Some ex_yspec" by (simp add: ex_handle_def)
  have f: "kv_db2file ex_handle ''candidate'' = Inr ?f" by (simp add: ex_handle_def kv_db2file_def)
  have no: "\<forall>c \<in> set (xml_childvec ?t). no_operation c"
    by (simp add: xml_elem_def xml_leaf_def xml_find_value_def xml_find_def)
  have te: "tree_entries ex_yspec ?t
      = [(''/server=a'', None), (''/server=a/name'', Some ''a''), (''/server=a/port'', Some ''22'')]"
    by code_simp
  have ds: "db_set_all [] [(''/server=a'', None), (''/server=a/name'', Some ''a''), (''/server=a/port'', Some ''22'')]
      = [(''/server=a'', None), (''/server=a/name'', Some ''a''), (''/server=a/port'', Some ''22'')]"
    by code_simp
  have "kv_put_children ex_yspec [] (xml_childvec ?t) OP_REPLACE
      = Inr [(''/server=a'', None), (''/server=a/name'', Some ''a''), (''/server=a/port'', Some ''22'')]"
    by code_simp
  then obtain fs' where ok: "kv_put ex_handle no_files ''candidate'' OP_REPLACE ?t = Inr fs'"
    by (auto simp: kv_put_def y f Let_def no_files_def)
  from kv_put_replace [OF y f, of no_files "[(''/old'', Some ''1'')]" ?t fs'] no ok
  have "kv_put ex_handle (no_files(?f := [(''/old'', Some ''1'')])) ''candidate'' OP_REPLACE ?t
        = kv_put ex_handle no_files ''candidate'' OP_REPLACE ?t"
    and "fs' = no_files(?f := db_set_all [] (tree_entries ex_yspec ?t))"
    by blast+
  then show ?thesis using ok te ds by simp
qed

text \<open>
  C5 as stated fails for a tree with an \<open>operation\<close> attribute: the leaf \<open>a\<close> marked
  \<open>none\<close> is an entry of the tree, the call succeeds, and the store stays empty.
\<close>

theorem kv_put_replace_operation_counterexample:
  "kv_put ex_handle no_files ''candidate'' OP_REPLACE
       (xml_elem ''config'' [xml_elem ''a'' [xml_attr ''operation'' ''none'', Cxobj ''body'' CX_BODY (Some ''3'') []]])
     = Inr (no_files(''/var/db/candidate_db'' := []))
   \<and> tree_entries ex_yspec
       (xml_elem ''config'' [xml_elem ''a'' [xml_attr ''operation'' ''none'', Cxobj ''body'' CX_BODY (Some ''3'') []]])
     = [(''/a'', Some ''3'')]"
proof -
  let ?t = "xml_elem ''config'' [xml_elem ''a'' [xml_attr ''operation'' ''none'', Cxobj ''body'' CX_BODY (Some ''3'') []]]"
  have te: "tree_entries ex_yspec ?t = [(''/a'', Some ''3'')]"
    by code_simp
  have "kv_put_children ex_yspec [] (xml_childvec ?t) OP_REPLACE = Inr []"
    by code_simp
  then have "kv_put ex_handle no_files ''candidate'' OP_REPLACE ?t = Inr (no_files(''/var/db/candidate_db'' := []))"
    by (simp add: kv_put_def ex_handle_def kv_db2file_def Let_def)
  then show ?thesis using te by simp
qed

section \<open>Facts about get\<close>

lemma clicon_strsep_not_Nil: "clicon_strsep s d \<noteq> []"
  by (induction s) (auto split: list.splits)

lemma clicon_strsep_no_delim: "d \<notin> set s \<Longrightarrow> clicon_strsep s d = [s]"
  by (induction s) auto

lemma clicon_strsep_append: "d \<notin> set s \<Longrightarrow> clicon_strsep (s @ d # r) d = s # clicon_strsep r d"
  by (induction s) auto

lemma clicon_strsep_key_of_aux:
  "\<forall>x \<in> set (s # segs). CHR ''/'' \<notin> set x \<Longrightarrow>
   clicon_strsep (s @ key_of segs) CHR ''/'' = s # segs"
proof (induction segs arbitrary: s)
  case Nil
  then show ?case by (simp add: key_of_def clicon_strsep_no_delim)
next
  case (Cons a segs)
  have "clicon_strsep (s @ key_of (a # segs)) CHR ''/''
        = s # clicon_strsep (a @ key_of segs) CHR ''/''"
    using Cons.prems by (simp add: key_of_def clicon_strsep_append)
  then show ?case using Cons by simp
qed

lemma clicon_strsep_key_of:
  "segs \<noteq> [] \<Longrightarrow> \<forall>x \<in> set segs. CHR ''/'' \<notin> set x \<Longrightarrow>
   clicon_strsep (key_of segs) CHR ''/'' = [] # segs"
proof (cases segs)
  case Nil
  assume "segs \<noteq> []"
  with Nil show ?thesis by simp
next
  case (Cons s rest)
  assume "\<forall>x \<in> set segs. CHR ''/'' \<notin> set x"
  with Cons have "clicon_strsep (s @ key_of rest) CHR ''/'' = s # rest"
    using clicon_strsep_key_of_aux [of s rest] by simp
  then show ?thesis using Cons by (simp add: key_of_def)
qed

lemma get_key_of:
  assumes "segs \<noteq> []" and "\<forall>x \<in> set segs. CHR ''/'' \<notin> set x"
  shows "get ys (key_of segs) val xt = get_vec ys None segs val xt"
proof -
  from assms(1) obtain s rest where segs: "segs = s # rest" by (cases segs) auto
  have "key_of segs \<noteq> []" "hd (key_of segs) = CHR ''/''"
    by (simp_all add: segs key_of_def)
  then show ?thesis
    using clicon_strsep_key_of [OF assms] assms(1) by (simp add: get_def)
qed

lemma get_step_skip: "(get_step ys y0 seg x = Inr None) = list_mismatch ys y0 seg"
  by (auto simp: get_step_def list_mismatch_def Let_def
      split: option.splits ys_keyword.splits prod.splits if_splits)

lemma get_step_yang:
  "get_step ys y0 seg x = Inr (Some (y, pre, xc, suf)) \<Longrightarrow> get_yang ys y0 (fst (split_eq seg)) = Some y"
  by (auto simp: get_step_def Let_def
      split: option.splits ys_keyword.splits prod.splits if_splits)

lemma get_vec_skip:
  "get_walk ys y0 pre = Some y1 \<Longrightarrow> list_mismatch ys y1 seg \<Longrightarrow>
   get_vec ys y0 (pre @ seg # rest) val x = get_vec ys y0 pre None x"
proof (induction pre arbitrary: y0 x)
  case Nil
  then have "get_step ys y0 seg x = Inr None" by (simp add: get_step_skip)
  then show ?case by simp
next
  case (Cons s pre)
  show ?case
  proof (cases "get_step ys y0 s x")
    case (Inl e)
    then show ?thesis by simp
  next
    case (Inr r)
    show ?thesis
    proof (cases r)
      case None
      with Inr show ?thesis by simp
    next
      case (Some t)
      obtain y p xc suf where t: "t = (y, p, xc, suf)" by (cases t)
      have "get_yang ys y0 (fst (split_eq s)) = Some y"
        using Inr Some t by (simp add: get_step_yang)
      with Cons.prems(1) have "get_walk ys (Some y) pre = Some y1" by simp
      from Cons.IH [OF this Cons.prems(2)]
      have "get_vec ys (Some y) (pre @ seg # rest) val xc = get_vec ys (Some y) pre None xc" .
      then show ?thesis using Inr Some t by simp
    qed
  qed
qed

lemma find_split_Some:
  "find_split P cs = Some (pre, x, suf) \<Longrightarrow> P x \<and> cs = pre @ x # suf"
  by (induction cs arbitrary: pre) (auto split: if_splits option.splits)

lemma get_vec_name: "get_vec ys y0 vec val x = Inr x' \<Longrightarrow> xml_name x' = xml_name x"
  by (cases vec) (auto split: option.splits sum.splits if_splits)

lemma get_step_name:
  "get_step ys y0 seg x = Inr (Some (y, pre, xc, suf)) \<Longrightarrow> xml_name xc = fst (split_eq seg)"
  by (auto simp: get_step_def Let_def xml_new_def xpath_keys_match_def
      split: option.splits ys_keyword.splits prod.splits if_splits dest!: find_split_Some)

lemma xml_find_member:
  "c \<in> set (xml_childvec x) \<Longrightarrow> xml_name c = name \<Longrightarrow> xml_find x name \<noteq> None"
  by (auto simp: xml_find_def find_None_iff)

lemma get_vec_child:
  assumes "get_vec ys y0 (seg # vec) val x = Inr x'" and "get_step ys y0 seg x \<noteq> Inr None"
  shows "xml_find x' (fst (split_eq seg)) \<noteq> None"
proof -
  from assms obtain y pre xc suf xc' where
    st: "get_step ys y0 seg x = Inr (Some (y, pre, xc, suf))"
    and rc: "get_vec ys (Some y) vec val xc = Inr xc'"
    and x': "x' = Cxobj (xml_name x) (xml_type x) (xml_value x) (pre @ xc' # suf)"
    by (auto split: sum.splits option.splits)
  have "xml_name xc' = fst (split_eq seg)"
    using get_vec_name [OF rc] get_step_name [OF st] by simp
  then show ?thesis
    using x' xml_find_member [of xc' x'] by simp
qed

lemma db_regexp_all: "db_regexp d [] = d"
  by (simp add: db_regexp_def regex_match_def)

lemma kv_get_pairs_append:
  "kv_get_pairs ys (ps1 @ ps2) xt =
     (case kv_get_pairs ys ps1 xt of Inl e \<Rightarrow> Inl e | Inr xt1 \<Rightarrow> kv_get_pairs ys ps2 xt1)"
  by (induction ps1 arbitrary: xt) (auto split: sum.splits)

lemma get_skip:
  assumes "\<forall>s \<in> set (pre @ seg # rest). CHR ''/'' \<notin> set s"
    and "get_walk ys None pre = Some y1" and "list_mismatch ys y1 seg"
  shows "get ys (key_of (pre @ seg # rest)) val xt = get_vec ys None pre None xt"
  using assms get_key_of [of "pre @ seg # rest" ys val xt] get_vec_skip [of ys None pre y1 seg rest val xt]
  by simp

lemma get_step_unknown:
  "get_yang ys y0 (fst (split_eq seg)) = None \<Longrightarrow>
   get_step ys y0 seg x = Inl (Clicon_err OE_UNIX (''No yang node found: '' @ fst (split_eq seg)))"
  by (simp add: get_step_def Let_def)

lemma get_step_error_indep:
  assumes "get_step ys y0 seg x = Inl e"
  shows "get_step ys y0 seg x' = Inl e"
proof (cases "get_yang ys y0 (fst (split_eq seg))")
  case None
  then show ?thesis using assms by (simp add: get_step_unknown)
next
  case (Some y)
  show ?thesis
  proof (cases "ys_keyword y = Y_LEAF_LIST")
    case True
    then show ?thesis using assms Some by (simp add: get_step_def Let_def)
  next
    case nll: False
    show ?thesis
    proof (cases "ys_keyword y = Y_LIST")
      case False
      with nll Some have "\<exists>r. get_step ys y0 seg x = Inr r"
        by (cases "ys_keyword y")
          (simp_all add: get_step_def Let_def split: option.split prod.split)
      with assms show ?thesis by auto
    next
      case lst: True
      show ?thesis
      proof (cases "yang_find_key y")
        case None
        then show ?thesis using assms Some lst by (simp add: get_step_def Let_def)
      next
        case ykey: (Some ykey)
        show ?thesis
        proof (cases "snd (split_eq seg)")
          case None
          then show ?thesis using assms Some lst ykey by (simp add: get_step_def Let_def)
        next
          case r: (Some r)
          show ?thesis
          proof (cases "length (yang_arg2cvec ykey) \<noteq> length (clicon_strsep r CHR '','')")
            case True
            then show ?thesis using assms Some lst ykey r by (simp add: get_step_def Let_def)
          next
            case len: False
            show ?thesis
            proof (cases "decode_all (clicon_strsep r CHR '','')")
              case None
              then show ?thesis using assms Some lst ykey r len by (simp add: get_step_def Let_def)
            next
              case args: (Some args)
              have "\<exists>t. get_step ys y0 seg x = Inr t"
                using Some lst ykey r len args
                by (simp add: get_step_def Let_def split: option.split prod.split)
              with assms show ?thesis by auto
            qed
          qed
        qed
      qed
    qed
  qed
qed

lemma get_vec_fail:
  "get_walk ys y0 pre = Some y1 \<Longrightarrow> \<not> get_skips ys y0 pre \<Longrightarrow> get_step ys y1 seg x0 = Inl e \<Longrightarrow>
   \<exists>e'. get_vec ys y0 (pre @ seg # rest) val x = Inl e'
        \<and> (\<forall>x2. get_vec ys y0 pre None x = Inr x2 \<longrightarrow> e' = e)"
proof (induction pre arbitrary: y0 x)
  case Nil
  then have "get_step ys y0 seg x = Inl e"
    using get_step_error_indep [of ys y0 seg x0 e x] by simp
  then show ?case by simp
next
  case (Cons s pre)
  show ?case
  proof (cases "get_step ys y0 s x")
    case (Inl e1)
    then show ?thesis by simp
  next
    case (Inr r)
    show ?thesis
    proof (cases r)
      case None
      with Inr have "list_mismatch ys y0 s" by (simp add: get_step_skip)
      with Cons.prems(2) show ?thesis by simp
    next
      case (Some t)
      obtain y p xc suf where t: "t = (y, p, xc, suf)" by (cases t)
      have gy: "get_yang ys y0 (fst (split_eq s)) = Some y"
        using Inr Some t by (simp add: get_step_yang)
      with Cons.prems(1) have w: "get_walk ys (Some y) pre = Some y1" by simp
      from Cons.prems(2) gy have ns: "\<not> get_skips ys (Some y) pre" by simp
      from Cons.IH [OF w ns Cons.prems(3), of xc]
      obtain e' where f: "get_vec ys (Some y) (pre @ seg # rest) val xc = Inl e'"
        and eq: "\<forall>x2. get_vec ys (Some y) pre None xc = Inr x2 \<longrightarrow> e' = e"
        by blast
      have "get_vec ys y0 ((s # pre) @ seg # rest) val x = Inl e'"
        using Inr Some t f by simp
      moreover have "e' = e" if "get_vec ys y0 (s # pre) None x = Inr x2" for x2
        using that Inr Some t eq by (auto split: sum.splits)
      ultimately show ?thesis by blast
    qed
  qed
qed

lemma get_fail:
  assumes "\<forall>s \<in> set (pre @ seg # rest). CHR ''/'' \<notin> set s"
    and "get_walk ys None pre = Some y1" and "\<not> get_skips ys None pre"
    and "get_step ys y1 seg x0 = Inl e"
  shows "\<exists>e'. get ys (key_of (pre @ seg # rest)) val xt = Inl e'
           \<and> (\<forall>x2. get_vec ys None pre None xt = Inr x2 \<longrightarrow> e' = e)"
  using assms(1) get_key_of [of "pre @ seg # rest" ys val xt]
    get_vec_fail [OF assms(2-4), of rest val xt]
  by simp

section \<open>Keys that get skips, and keys that make it fail\<close>

text \<open>
  C6.  Let the database hold the pair \<open>(xk, val)\<close> after pairs that decode into the
  tree \<open>xt1\<close>.  If \<open>xk\<close> has a list segment whose number of values differs from the
  number of key fields, after segments that decode, then \<open>get\<close> returns without
  error and \<open>kv_get\<close> goes on with the remaining pairs.  If \<open>get\<close> returns an error
  for the pair, \<open>kv_get\<close> returns that error and nothing else is decoded.  \<open>get\<close>
  returns an error for a key that does not start with a slash; for a key whose first
  segment has a name that the schema does not know; for a key with such a segment
  at any depth, after segments none of which is skipped (the error names the segment
  when the earlier ones decode); and in general for a key with a segment, after
  segments none of which is skipped, on which the turn of the loop fails, with that
  turn's error when the earlier segments decode.  The mismatch of the counts is the
  only case in which a segment ends the decoding without an error.
\<close>

theorem get_skip_or_abort:
  assumes f: "kv_db2file kh db = Inr dbfile" and y: "kh_yangspec kh = Some ys"
    and ps: "fs dbfile = ps1 @ (xk, val) # ps2"
    and p1: "kv_get_pairs ys ps1 (xml_new ''config'') = Inr xt1"
  shows
    "(xk = key_of (pre @ seg # rest) \<and> (\<forall>s \<in> set (pre @ seg # rest). CHR ''/'' \<notin> set s)
        \<and> get_walk ys None pre = Some y1 \<and> list_mismatch ys y1 seg
        \<and> get_vec ys None pre None xt1 = Inr xt2
      \<longrightarrow> get ys xk val xt1 = Inr xt2
          \<and> kv_get post kh fs db xpath
              = (case kv_get_pairs ys ps2 xt2 of Inl e \<Rightarrow> Inl e | Inr xt \<Rightarrow> post xpath xt))
     \<and> (get ys xk val xt1 = Inl e \<longrightarrow> kv_get post kh fs db xpath = Inl e)
     \<and> (xk = [] \<or> hd xk \<noteq> CHR ''/''
          \<longrightarrow> get ys xk val xt1 = Inl (Clicon_err OE_DB (''Invalid key: '' @ xk)))
     \<and> (xk = key_of (seg # rest) \<and> (\<forall>s \<in> set (seg # rest). CHR ''/'' \<notin> set s)
          \<and> yang_find_topnode ys (fst (split_eq seg)) = None
          \<longrightarrow> get ys xk val xt1
                = Inl (Clicon_err OE_UNIX (''No yang node found: '' @ fst (split_eq seg))))
     \<and> (xk = key_of (pre @ seg # rest) \<and> (\<forall>s \<in> set (pre @ seg # rest). CHR ''/'' \<notin> set s)
          \<and> get_walk ys None pre = Some y1 \<and> \<not> get_skips ys None pre
          \<and> get_yang ys y1 (fst (split_eq seg)) = None
          \<and> get_vec ys None pre None xt1 = Inr xt2
          \<longrightarrow> get ys xk val xt1
                = Inl (Clicon_err OE_UNIX (''No yang node found: '' @ fst (split_eq seg)))
              \<and> kv_get post kh fs db xpath
                = Inl (Clicon_err OE_UNIX (''No yang node found: '' @ fst (split_eq seg))))
     \<and> (xk = key_of (pre @ seg # rest) \<and> (\<forall>s \<in> set (pre @ seg # rest). CHR ''/'' \<notin> set s)
          \<and> get_walk ys None pre = Some y1 \<and> \<not> get_skips ys None pre
          \<and> get_step ys y1 seg x0 = Inl e
          \<longrightarrow> (\<exists>e'. get ys xk val xt1 = Inl e' \<and> kv_get post kh fs db xpath = Inl e'
                     \<and> (get_vec ys None pre None xt1 = Inr xt2 \<longrightarrow> e' = e)))
     \<and> (get_yang ys y0 (fst (split_eq seg)) = None
          \<longrightarrow> get_step ys y0 seg x
                = Inl (Clicon_err OE_UNIX (''No yang node found: '' @ fst (split_eq seg))))
     \<and> ((get_step ys y0 seg x = Inr None) = list_mismatch ys y0 seg)"
proof -
  have rd: "kv_get post kh fs db xpath =
      (case get ys xk val xt1 of
         Inl e \<Rightarrow> Inl e
       | Inr xt' \<Rightarrow> (case kv_get_pairs ys ps2 xt' of Inl e \<Rightarrow> Inl e | Inr xt \<Rightarrow> post xpath xt))"
    using f y ps p1 by (simp add: kv_get_def db_regexp_all kv_get_pairs_append split: sum.splits)
  have ab: "kv_get post kh fs db xpath = Inl e''" if "get ys xk val xt1 = Inl e''" for e''
    using that rd by simp
  have a: "get ys xk val xt1 = Inr xt2"
    if "xk = key_of (pre @ seg # rest)" "\<forall>s \<in> set (pre @ seg # rest). CHR ''/'' \<notin> set s"
      "get_walk ys None pre = Some y1" "list_mismatch ys y1 seg"
      "get_vec ys None pre None xt1 = Inr xt2"
    using that get_skip [of pre seg rest ys y1 val xt1] by simp
  have a': "kv_get post kh fs db xpath
      = (case kv_get_pairs ys ps2 xt2 of Inl e \<Rightarrow> Inl e | Inr xt \<Rightarrow> post xpath xt)"
    if "get ys xk val xt1 = Inr xt2"
    using that rd by simp
  have c: "get ys xk val xt1 = Inl (Clicon_err OE_DB (''Invalid key: '' @ xk))"
    if "xk = [] \<or> hd xk \<noteq> CHR ''/''"
    using that by (auto simp: get_def)
  have d: "get ys xk val xt1 = Inl (Clicon_err OE_UNIX (''No yang node found: '' @ fst (split_eq seg)))"
    if "xk = key_of (seg # rest)" "\<forall>s \<in> set (seg # rest). CHR ''/'' \<notin> set s"
      "yang_find_topnode ys (fst (split_eq seg)) = None"
    using that get_key_of [of "seg # rest" ys val xt1] get_step_unknown [of ys None seg xt1] by simp
  have g: "\<exists>e'. get ys xk val xt1 = Inl e' \<and> kv_get post kh fs db xpath = Inl e'
             \<and> (get_vec ys None pre None xt1 = Inr xt2 \<longrightarrow> e' = e'')"
    if "xk = key_of (pre @ seg # rest)" "\<forall>s \<in> set (pre @ seg # rest). CHR ''/'' \<notin> set s"
      "get_walk ys None pre = Some y1" "\<not> get_skips ys None pre"
      "get_step ys y1 seg x0 = Inl e''" for e'' x0
  proof -
    from get_fail [OF that(2-5), where val = val and xt = xt1] that(1)
    obtain e' where "get ys xk val xt1 = Inl e'"
      and "\<forall>x2. get_vec ys None pre None xt1 = Inr x2 \<longrightarrow> e' = e''"
      by auto
    then show ?thesis using ab by blast
  qed
  have u: "get ys xk val xt1 = Inl (Clicon_err OE_UNIX (''No yang node found: '' @ fst (split_eq seg)))
        \<and> kv_get post kh fs db xpath
            = Inl (Clicon_err OE_UNIX (''No yang node found: '' @ fst (split_eq seg)))"
    if "xk = key_of (pre @ seg # rest)" "\<forall>s \<in> set (pre @ seg # rest). CHR ''/'' \<notin> set s"
      "get_walk ys None pre = Some y1" "\<not> get_skips ys None pre"
      "get_yang ys y1 (fst (split_eq seg)) = None" "get_vec ys None pre None xt1 = Inr xt2"
    using g [OF that(1-4) get_step_unknown [OF that(5), of xt1]] that(6) by auto
  have 1: "xk = key_of (pre @ seg # rest) \<and> (\<forall>s \<in> set (pre @ seg # rest). CHR ''/'' \<notin> set s)
        \<and> get_walk ys None pre = Some y1 \<and> list_mismatch ys y1 seg
        \<and> get_vec ys None pre None xt1 = Inr xt2
      \<longrightarrow> get ys xk val xt1 = Inr xt2
          \<and> kv_get post kh fs db xpath
              = (case kv_get_pairs ys ps2 xt2 of Inl e \<Rightarrow> Inl e | Inr xt \<Rightarrow> post xpath xt)"
    using a a' by blast
  have 2: "get ys xk val xt1 = Inl e \<longrightarrow> kv_get post kh fs db xpath = Inl e"
    using ab by blast
  have 3: "xk = [] \<or> hd xk \<noteq> CHR ''/''
          \<longrightarrow> get ys xk val xt1 = Inl (Clicon_err OE_DB (''Invalid key: '' @ xk))"
    using c by blast
  have 4: "xk = key_of (seg # rest) \<and> (\<forall>s \<in> set (seg # rest). CHR ''/'' \<notin> set s)
          \<and> yang_find_topnode ys (fst (split_eq seg)) = None
          \<longrightarrow> get ys xk val xt1
                = Inl (Clicon_err OE_UNIX (''No yang node found: '' @ fst (split_eq seg)))"
    by (intro impI, elim conjE, rule d) assumption+
  have 5: "xk = key_of (pre @ seg # rest) \<and> (\<forall>s \<in> set (pre @ seg # rest). CHR ''/'' \<notin> set s)
          \<and> get_walk ys None pre = Some y1 \<and> \<not> get_skips ys None pre
          \<and> get_yang ys y1 (fst (split_eq seg)) = None
          \<and> get_vec ys None pre None xt1 = Inr xt2
          \<longrightarrow> get ys xk val xt1
                = Inl (Clicon_err OE_UNIX (''No yang node found: '' @ fst (split_eq seg)))
              \<and> kv_get post kh fs db xpath
                = Inl (Clicon_err OE_UNIX (''No yang node found: '' @ fst (split_eq seg)))"
    by (intro impI, elim conjE, rule u) assumption+
  have 6: "xk = key_of (pre @ seg # rest) \<and> (\<forall>s \<in> set (pre @ seg # rest). CHR ''/'' \<notin> set s)
          \<and> get_walk ys None pre = Some y1 \<and> \<not> get_skips ys None pre
          \<and> get_step ys y1 seg x0 = Inl e
          \<longrightarrow> (\<exists>e'. get ys xk val xt1 = Inl e' \<and> kv_get post kh fs db xpath = Inl e'
                     \<and> (get_vec ys None pre None xt1 = Inr xt2 \<longrightarrow> e' = e))"
    by (intro impI, elim conjE, rule g [of x0 e]) assumption+
  have 7: "get_yang ys y0 (fst (split_eq seg)) = None
          \<longrightarrow> get_step ys y0 seg x
                = Inl (Clicon_err OE_UNIX (''No yang node found: '' @ fst (split_eq seg)))"
    using get_step_unknown [of ys y0 seg x] by blast
  have 8: "(get_step ys y0 seg x = Inr None) = list_mismatch ys y0 seg"
    by (rule get_step_skip)
  from 1 2 3 4 5 6 7 8 show ?thesis
    by (intro conjI) assumption+
qed

theorem get_skip_or_abort_witness:
  "kv_get (\<lambda>xpath. Inr) ex_handle
       (no_files(''/var/db/running_db'' := [(''/c/server=a,b/port'', Some ''22''), (''/c/x'', Some ''1'')]))
       ''running'' None
     = Inr (xml_elem ''config'' [xml_elem ''c'' [xml_leaf ''x'' ''1'']])
   \<and> kv_get (\<lambda>xpath. Inr) ex_handle
       (no_files(''/var/db/running_db'' := [(''/unknown'', None), (''/c/x'', Some ''1'')]))
       ''running'' None
     = Inl (Clicon_err OE_UNIX ''No yang node found: unknown'')
   \<and> kv_get (\<lambda>xpath. Inr) ex_handle
       (no_files(''/var/db/running_db'' := [(''/c/unknown'', Some ''1''), (''/c/x'', Some ''1'')]))
       ''running'' None
     = Inl (Clicon_err OE_UNIX ''No yang node found: unknown'')
   \<and> kv_get (\<lambda>xpath. Inr) ex_handle
       (no_files(''/var/db/running_db'' := [(''/c/server/port'', Some ''22''), (''/c/x'', Some ''1'')]))
       ''running'' None
     = Inl Lib_failed"
proof -
  let ?f = "''/var/db/running_db''"
  let ?fs1 = "no_files(?f := [(''/c/server=a,b/port'', Some ''22''), (''/c/x'', Some ''1'')])"
  let ?fs2 = "no_files(?f := [(''/unknown'', None), (''/c/x'', Some ''1'')])"
  let ?fs3 = "no_files(?f := [(''/c/unknown'', Some ''1''), (''/c/x'', Some ''1'')])"
  let ?fs4 = "no_files(?f := [(''/c/server/port'', Some ''22''), (''/c/x'', Some ''1'')])"
  let ?post = "\<lambda>xpath :: string option. (Inr :: cxobj \<Rightarrow> clicon_error + cxobj)"
  have f: "kv_db2file ex_handle ''running'' = Inr ?f" by (simp add: ex_handle_def kv_db2file_def)
  have y: "kh_yangspec ex_handle = Some ex_yspec" by (simp add: ex_handle_def)
  have ps1: "?fs1 ?f = [] @ (''/c/server=a,b/port'', Some ''22'') # [(''/c/x'', Some ''1'')]" by simp
  have ps2: "?fs2 ?f = [] @ (''/unknown'', None) # [(''/c/x'', Some ''1'')]" by simp
  have ps3: "?fs3 ?f = [] @ (''/c/unknown'', Some ''1'') # [(''/c/x'', Some ''1'')]" by simp
  have ps4: "?fs4 ?f = [] @ (''/c/server/port'', Some ''22'') # [(''/c/x'', Some ''1'')]" by simp
  have p1: "kv_get_pairs ex_yspec [] (xml_new ''config'') = Inr (xml_new ''config'')" by simp
  have k: "''/c/server=a,b/port'' = key_of ([''c''] @ ''server=a,b'' # [''port''])"
    by (simp add: key_of_def)
  have h2: "\<forall>s \<in> set ([''c''] @ ''server=a,b'' # [''port'']). CHR ''/'' \<notin> set s" by simp
  have h3: "get_walk ex_yspec None [''c''] = Some (Some ex_c)" by code_simp
  have h4: "list_mismatch ex_yspec (Some ex_c) ''server=a,b''" by code_simp
  have h5: "get_vec ex_yspec None [''c''] None (xml_new ''config'') = Inr (xml_elem ''config'' [xml_elem ''c'' []])"
    by code_simp
  have rest: "kv_get_pairs ex_yspec [(''/c/x'', Some ''1'')] (xml_elem ''config'' [xml_elem ''c'' []])
      = Inr (xml_elem ''config'' [xml_elem ''c'' [xml_leaf ''x'' ''1'']])"
    by code_simp
  from get_skip_or_abort [where fs = ?fs1 and dbfile = ?f and ?ps1.0 = "[]" and pre = "[''c'']"
      and seg = "''server=a,b''" and rest = "[''port'']" and ?y1.0 = "Some ex_c"
      and ?xt2.0 = "xml_elem ''config'' [xml_elem ''c'' []]" and post = ?post
      and xpath = None, OF f y ps1 p1] k h2 h3 h4 h5
  have "kv_get ?post ex_handle ?fs1 ''running'' None
        = (case kv_get_pairs ex_yspec [(''/c/x'', Some ''1'')] (xml_elem ''config'' [xml_elem ''c'' []]) of
             Inl e \<Rightarrow> Inl e | Inr xt \<Rightarrow> Inr xt)"
    by blast
  then have a: "kv_get ?post ex_handle ?fs1 ''running'' None
      = Inr (xml_elem ''config'' [xml_elem ''c'' [xml_leaf ''x'' ''1'']])"
    unfolding rest by simp
  have g: "get ex_yspec ''/unknown'' None (xml_new ''config'') = Inl (Clicon_err OE_UNIX ''No yang node found: unknown'')"
    by code_simp
  from get_skip_or_abort [where fs = ?fs2 and dbfile = ?f and ?ps1.0 = "[]"
      and e = "Clicon_err OE_UNIX ''No yang node found: unknown''" and post = ?post
      and xpath = None, OF f y ps2 p1] g
  have b: "kv_get ?post ex_handle ?fs2 ''running'' None
      = Inl (Clicon_err OE_UNIX ''No yang node found: unknown'')"
    by blast
  have k3: "''/c/unknown'' = key_of ([''c''] @ ''unknown'' # [])" by (simp add: key_of_def)
  have s3: "\<forall>s \<in> set ([''c''] @ ''unknown'' # []). CHR ''/'' \<notin> set s" by simp
  have ns: "\<not> get_skips ex_yspec None [''c'']" by code_simp
  have u3: "get_yang ex_yspec (Some ex_c) (fst (split_eq ''unknown'')) = None" by code_simp
  have n3: "fst (split_eq ''unknown'') = ''unknown''" by code_simp
  from get_skip_or_abort [where fs = ?fs3 and dbfile = ?f and ?ps1.0 = "[]" and pre = "[''c'']"
      and seg = "''unknown''" and rest = "[]" and ?y1.0 = "Some ex_c"
      and ?xt2.0 = "xml_elem ''config'' [xml_elem ''c'' []]" and post = ?post
      and xpath = None, OF f y ps3 p1] k3 s3 h3 ns u3 h5
  have "kv_get ?post ex_handle ?fs3 ''running'' None
      = Inl (Clicon_err OE_UNIX (''No yang node found: '' @ fst (split_eq ''unknown'')))"
    by blast
  then have c: "kv_get ?post ex_handle ?fs3 ''running'' None
      = Inl (Clicon_err OE_UNIX ''No yang node found: unknown'')"
    by (simp add: n3)
  have k4: "''/c/server/port'' = key_of ([''c''] @ ''server'' # [''port''])" by (simp add: key_of_def)
  have s4: "\<forall>s \<in> set ([''c''] @ ''server'' # [''port'']). CHR ''/'' \<notin> set s" by simp
  have st4: "get_step ex_yspec (Some ex_c) ''server'' (xml_new []) = Inl Lib_failed" by code_simp
  from get_skip_or_abort [where fs = ?fs4 and dbfile = ?f and ?ps1.0 = "[]" and pre = "[''c'']"
      and seg = "''server''" and rest = "[''port'']" and ?y1.0 = "Some ex_c"
      and ?x0.0 = "xml_new []" and e = Lib_failed
      and ?xt2.0 = "xml_elem ''config'' [xml_elem ''c'' []]" and post = ?post
      and xpath = None, OF f y ps4 p1] k4 s4 h3 ns st4 h5
  have d: "kv_get ?post ex_handle ?fs4 ''running'' None = Inl Lib_failed"
    by blast
  from a b c d show ?thesis by simp
qed

text \<open>
  C9.  When \<open>get\<close> leaves a key at a list segment with the wrong number of values,
  its result is the result of decoding the segments before it, without a value: the
  nodes found or created for them stay in the tree.  In particular the tree then has a
  child for the first segment.
\<close>

theorem get_skip_keeps_nodes:
  assumes "pre \<noteq> []" and "\<forall>s \<in> set (pre @ seg # rest). CHR ''/'' \<notin> set s"
    and "get_walk ys None pre = Some y1" and "list_mismatch ys y1 seg"
  shows "get ys (key_of (pre @ seg # rest)) val xt = get ys (key_of pre) None xt
         \<and> (get ys (key_of (pre @ seg # rest)) val xt = Inr xt'
              \<and> get_step ys None (hd pre) xt \<noteq> Inr None
            \<longrightarrow> xml_find xt' (fst (split_eq (hd pre))) \<noteq> None)"
proof -
  have e: "get ys (key_of (pre @ seg # rest)) val xt = get_vec ys None pre None xt"
    using assms(2-4) by (rule get_skip)
  have k: "get ys (key_of pre) None xt = get_vec ys None pre None xt"
    using assms(1,2) by (simp add: get_key_of)
  obtain s vec where pre: "pre = s # vec" using assms(1) by (cases pre) auto
  have "xml_find xt' (fst (split_eq (hd pre))) \<noteq> None"
    if "get ys (key_of (pre @ seg # rest)) val xt = Inr xt'" "get_step ys None (hd pre) xt \<noteq> Inr None"
    using that e get_vec_child [of ys None s vec None xt xt'] by (simp add: pre)
  then show ?thesis using e k by simp
qed

theorem get_skip_keeps_nodes_witness:
  "get ex_yspec ''/c/server=a,b/port'' (Some ''22'') (xml_new ''config'')
     = Inr (xml_elem ''config'' [xml_elem ''c'' []])
   \<and> xml_find (xml_elem ''config'' [xml_elem ''c'' []]) ''c'' \<noteq> None
   \<and> xml_elem ''config'' [xml_elem ''c'' []] \<noteq> xml_new ''config''"
proof -
  have k: "key_of ([''c''] @ ''server=a,b'' # [''port'']) = ''/c/server=a,b/port''"
    by (simp add: key_of_def)
  have h1: "[''c''] \<noteq> []" by simp
  have h2: "\<forall>s \<in> set ([''c''] @ ''server=a,b'' # [''port'']). CHR ''/'' \<notin> set s" by simp
  have h3: "get_walk ex_yspec None [''c''] = Some (Some ex_c)" by code_simp
  have h4: "list_mismatch ex_yspec (Some ex_c) ''server=a,b''" by code_simp
  have r: "get ex_yspec (key_of [''c'']) None (xml_new ''config'') = Inr (xml_elem ''config'' [xml_elem ''c'' []])"
    by code_simp
  have ns: "get_step ex_yspec None (hd [''c'']) (xml_new ''config'') \<noteq> Inr None"
    by code_simp
  have n: "fst (split_eq (hd [''c''])) = ''c''" by code_simp
  from get_skip_keeps_nodes [OF h1 h2 h3 h4, of "Some ''22''" "xml_new ''config''"
      "xml_elem ''config'' [xml_elem ''c'' []]"] k r ns n
  have "get ex_yspec ''/c/server=a,b/port'' (Some ''22'') (xml_new ''config'')
          = Inr (xml_elem ''config'' [xml_elem ''c'' []])"
    and "xml_find (xml_elem ''config'' [xml_elem ''c'' []]) ''c'' \<noteq> None"
    by simp_all
  moreover have "xml_elem ''config'' [xml_elem ''c'' []] \<noteq> xml_new ''config''"
    by (simp add: xml_elem_def xml_new_def)
  ultimately show ?thesis by simp
qed

section \<open>Writing a tree and reading it back\<close>

text \<open>
  C1 at a failing input.  The tree has the leaf-list \<open>ll\<close> with the one value \<open>a\<close>.
  \<open>kv_put\<close> stores it under the key \<open>/ll=a\<close>.  Reading back, \<open>get\<close> reaches its
  leaf-list branch for this key, where \<^verbatim>\<open>argdec\<close> is freed (and, with an earlier entry
  of the leaf-list in the tree, read) without ever having been assigned, the call of
  line 331 having its arguments exchanged.  The read does not return a tree: \<open>get\<close>
  fails on the key, and \<open>kv_get\<close> with it, whatever the path query and the steps after
  the loop are.
\<close>

theorem leaf_list_round_trip_fails:
  "kv_put ex_handle no_files ''running'' OP_REPLACE (xml_elem ''config'' [xml_leaf ''ll'' ''a''])
     = Inr (no_files(''/var/db/running_db'' := [(''/ll=a'', Some ''a'')]))
   \<and> get ex_yspec ''/ll=a'' (Some ''a'') (xml_new ''config'') = Inl Lib_failed
   \<and> kv_get post ex_handle (no_files(''/var/db/running_db'' := [(''/ll=a'', Some ''a'')]))
         ''running'' xpath
     = Inl Lib_failed"
proof -
  let ?t = "xml_elem ''config'' [xml_leaf ''ll'' ''a'']"
  let ?d = "[(''/ll=a'', Some ''a'')]"
  have "kv_put_children ex_yspec [] (xml_childvec ?t) OP_REPLACE = Inr ?d"
    by code_simp
  then have a: "kv_put ex_handle no_files ''running'' OP_REPLACE ?t
      = Inr (no_files(''/var/db/running_db'' := ?d))"
    by (simp add: kv_put_def ex_handle_def kv_db2file_def Let_def no_files_def)
  have g: "get ex_yspec ''/ll=a'' (Some ''a'') (xml_new ''config'') = Inl Lib_failed"
    by code_simp
  have "kv_get_pairs ex_yspec (db_regexp ?d []) (xml_new ''config'') = Inl Lib_failed"
    using g by (simp add: db_regexp_all)
  then have b: "kv_get post ex_handle (no_files(''/var/db/running_db'' := ?d)) ''running'' xpath
      = Inl Lib_failed"
    by (simp add: kv_get_def ex_handle_def kv_db2file_def)
  from a g b show ?thesis by simp
qed

end
